theory Spec2Isabelle
  imports Main
begin

section \<open>Strings\<close>

text \<open>
  A JavaScript string is modelled as a \<^typ>\<open>string\<close>; a \<^typ>\<open>char\<close> stands for
  a UTF-16 code unit below 256. The three \<^verbatim>\<open>String.prototype\<close> methods the
  sources call are written out: \<^verbatim>\<open>replace\<close> with a string pattern (it replaces the
  first occurrence only), \<^verbatim>\<open>trim\<close> and \<^verbatim>\<open>toLowerCase\<close>.
\<close>

fun replace :: "string \<Rightarrow> string \<Rightarrow> string \<Rightarrow> string" where
  "replace pat rep [] = (if pat = [] then rep else [])"
| "replace pat rep (c # cs) =
     (if take (length pat) (c # cs) = pat then rep @ drop (length pat) (c # cs)
      else c # replace pat rep cs)"

definition isWhiteSpace :: "char \<Rightarrow> bool" where
  "isWhiteSpace c \<longleftrightarrow>
     c \<in> set [CHR 0x09, CHR 0x0A, CHR 0x0B, CHR 0x0C, CHR 0x0D, CHR 0x20, CHR 0xA0]"

definition trim :: "string \<Rightarrow> string" where
  "trim s = rev (dropWhile isWhiteSpace (rev (dropWhile isWhiteSpace s)))"

definition lowerChar :: "char \<Rightarrow> char" where
  "lowerChar c =
     (let n = of_char c :: nat
      in if (0x41 \<le> n \<and> n \<le> 0x5A) \<or> (0xC0 \<le> n \<and> n \<le> 0xDE \<and> n \<noteq> 0xD7)
         then char_of (n + 0x20) else c)"

definition toLowerCase :: "string \<Rightarrow> string" where
  "toLowerCase s = map lowerChar s"

text \<open>JavaScript truthiness of a value of type \<^verbatim>\<open>string | undefined\<close> (or
  \<^verbatim>\<open>string | null\<close>): \<^verbatim>\<open>undefined\<close>, \<^verbatim>\<open>null\<close> and the empty string are falsy.\<close>

definition truthy :: "string option \<Rightarrow> bool" where
  "truthy v = (case v of None \<Rightarrow> False | Some s \<Rightarrow> s \<noteq> [])"

section \<open>Numbers\<close>

text \<open>
  A JavaScript \<^verbatim>\<open>number\<close> is an IEEE 754 double. The numbers of the sources are readings
  of the clock, results of \<^verbatim>\<open>parseInt\<close>, and sums, differences and products of these:
  they are \<^verbatim>\<open>NaN\<close>, an infinity, or a double whose value is an integer, which \<open>Fin\<close>
  holds. The two zeros are not told apart.

  \<open>toDouble n\<close> is the double nearest to the integer \<open>n\<close>, ties to the even significand:
  an integer below \<open>2 ^ 53\<close> in magnitude is a double; a larger one keeps the 53 leading
  bits of its magnitude, rounded, and becomes an infinity from \<open>2 ^ 1024\<close> on.
\<close>

datatype number = NaN | NegInf | Fin int | PosInf

text \<open>The number of bits of a natural number.\<close>

fun width :: "nat \<Rightarrow> nat" where
  "width n = (if n = 0 then 0 else Suc (width (n div 2)))"

declare width.simps [simp del]

definition roundMagnitude :: "nat \<Rightarrow> nat" where
  "roundMagnitude m =
     (if m < 2 ^ 53 then m
      else let e = width m - 53;
               q = m div 2 ^ e;
               r = m mod 2 ^ e
           in (if 2 * r > 2 ^ e \<or> (2 * r = 2 ^ e \<and> odd q) then Suc q else q) * 2 ^ e)"

definition toDouble :: "int \<Rightarrow> number" where
  "toDouble n =
     (let m = roundMagnitude (nat \<bar>n\<bar>)
      in if m \<ge> 2 ^ 1024 then (if n < 0 then NegInf else PosInf)
         else Fin (if n < 0 then - int m else int m))"

text \<open>The operators \<^verbatim>\<open>+\<close>, unary and binary \<^verbatim>\<open>-\<close>, and \<^verbatim>\<open>*\<close> on these numbers.\<close>

fun dadd :: "number \<Rightarrow> number \<Rightarrow> number" where
  "dadd (Fin a) (Fin b) = toDouble (a + b)"
| "dadd NaN y = NaN"
| "dadd x NaN = NaN"
| "dadd PosInf NegInf = NaN"
| "dadd NegInf PosInf = NaN"
| "dadd PosInf y = PosInf"
| "dadd NegInf y = NegInf"
| "dadd (Fin a) y = y"

fun dneg :: "number \<Rightarrow> number" where
  "dneg NaN = NaN"
| "dneg NegInf = PosInf"
| "dneg (Fin a) = Fin (- a)"
| "dneg PosInf = NegInf"

definition dsub :: "number \<Rightarrow> number \<Rightarrow> number" where
  "dsub x y = dadd x (dneg y)"

fun dsign :: "number \<Rightarrow> int" where
  "dsign NaN = 0"
| "dsign NegInf = - 1"
| "dsign (Fin a) = sgn a"
| "dsign PosInf = 1"

fun dmul :: "number \<Rightarrow> number \<Rightarrow> number" where
  "dmul (Fin a) (Fin b) = toDouble (a * b)"
| "dmul x y =
     (if x = NaN \<or> y = NaN \<or> dsign x * dsign y = 0 then NaN
      else if dsign x * dsign y > 0 then PosInf else NegInf)"

text \<open>
  The comparisons \<^verbatim>\<open><\<close> and \<^verbatim>\<open>>=\<close>, which are false when an operand is \<^verbatim>\<open>NaN\<close>, and
  \<^verbatim>\<open>Math.max\<close> of two numbers, which is \<^verbatim>\<open>NaN\<close> then.
\<close>

fun dless :: "number \<Rightarrow> number \<Rightarrow> bool" where
  "dless (Fin a) (Fin b) = (a < b)"
| "dless NaN y = False"
| "dless x NaN = False"
| "dless x NegInf = False"
| "dless PosInf y = False"
| "dless NegInf y = True"
| "dless (Fin a) PosInf = True"

definition dge :: "number \<Rightarrow> number \<Rightarrow> bool" where
  "dge x y \<longleftrightarrow> x \<noteq> NaN \<and> y \<noteq> NaN \<and> \<not> dless x y"

definition dmax :: "number \<Rightarrow> number \<Rightarrow> number" where
  "dmax x y = (if x = NaN \<or> y = NaN then NaN else if dless x y then y else x)"

section \<open>Account handles\<close>

text \<open>
  \<^verbatim>\<open>cleanUnicityId\<close> of the tool surface:
  \<^verbatim>\<open>unicityId.replace("@unicity", "").replace("@", "").trim()\<close>.
\<close>

definition cleanUnicityId :: "string \<Rightarrow> string" where
  "cleanUnicityId unicityId = trim (replace ''@'' [] (replace ''@unicity'' [] unicityId))"

section \<open>Configuration\<close>

text \<open>
  Everything that can be thrown in the sources is a value of \<open>error\<close>:
  \<^item> \<open>NametagRequired\<close>: \<^verbatim>\<open>Error("MCP_NAMETAG environment variable is required ...")\<close>;
  \<^item> \<open>CoinIdRequired\<close>: \<^verbatim>\<open>Error("PAYMENT_COIN_ID environment variable is required")\<close>;
  \<^item> \<open>SyntaxError\<close>: thrown by \<^verbatim>\<open>BigInt\<close> on a string that is no integer literal;
  \<^item> \<open>NotConnected\<close>: \<^verbatim>\<open>Error("Nostr client not connected")\<close>;
  \<^item> \<open>ClientError\<close>: a rejection of a call of the external Nostr client.
\<close>

datatype error = NametagRequired | CoinIdRequired | SyntaxError | NotConnected | ClientError

text \<open>\<^verbatim>\<open>process.env\<close>: a variable is absent or holds a string.\<close>

type_synonym env = "string \<rightharpoonup> string"

text \<open>\<^verbatim>\<open>v || d\<close> for \<^verbatim>\<open>v\<close> of type \<^verbatim>\<open>string | undefined\<close>.\<close>

definition orElse :: "string option \<Rightarrow> string \<Rightarrow> string" where
  "orElse v d = (case v of None \<Rightarrow> d | Some s \<Rightarrow> if s = [] then d else s)"

definition digitVal :: "char \<Rightarrow> nat option" where
  "digitVal c =
     (let n = of_char c :: nat
      in if 0x30 \<le> n \<and> n \<le> 0x39 then Some (n - 0x30)
         else if 0x61 \<le> n \<and> n \<le> 0x66 then Some (n - 0x57)
         else if 0x41 \<le> n \<and> n \<le> 0x46 then Some (n - 0x37)
         else None)"

definition isDigit :: "nat \<Rightarrow> char \<Rightarrow> bool" where
  "isDigit radix c = (case digitVal c of None \<Rightarrow> False | Some d \<Rightarrow> d < radix)"

definition digitsValue :: "nat \<Rightarrow> string \<Rightarrow> int" where
  "digitsValue radix ds =
     foldl (\<lambda>acc c. acc * int radix + int (case digitVal c of None \<Rightarrow> 0 | Some d \<Rightarrow> d)) 0 ds"

text \<open>A non-empty run of digits of the radix, as a number.\<close>

definition digits :: "nat \<Rightarrow> string \<Rightarrow> int option" where
  "digits radix ds =
     (if ds \<noteq> [] \<and> list_all (isDigit radix) ds then Some (digitsValue radix ds) else None)"

text \<open>
  \<^verbatim>\<open>BigInt(s)\<close> for a string (ECMAScript StringToBigInt): white space around the
  literal is dropped; the empty string is \<open>0n\<close>; the literal is a run of decimal digits
  with an optional sign, or an unsigned hexadecimal, octal or binary literal with its
  prefix. Anything else throws a SyntaxError (\<open>None\<close>).
\<close>

definition BigInt :: "string \<Rightarrow> int option" where
  "BigInt s =
     (let t = trim s
      in if t = [] then Some 0
         else if take 2 t = ''0x'' \<or> take 2 t = ''0X'' then digits 16 (drop 2 t)
         else if take 2 t = ''0o'' \<or> take 2 t = ''0O'' then digits 8 (drop 2 t)
         else if take 2 t = ''0b'' \<or> take 2 t = ''0B'' then digits 2 (drop 2 t)
         else if take 1 t = ''-'' then map_option uminus (digits 10 (drop 1 t))
         else if take 1 t = ''+'' then digits 10 (drop 1 t)
         else digits 10 t)"

text \<open>
  \<^verbatim>\<open>parseInt(s, 10)\<close>: leading white space is dropped, then an optional sign, then the
  longest run of decimal digits is read; with no digit there the result is \<^verbatim>\<open>NaN\<close>,
  else it is the double nearest to the integer that was read. (Beyond 20 significant
  digits the standard lets an implementation read the later digits as zeros; the model
  reads them as they are.) It never throws.
\<close>

definition parseInt10 :: "string \<Rightarrow> number" where
  "parseInt10 s =
     (let t = dropWhile isWhiteSpace s;
          neg = (take 1 t = ''-'');
          u = (if take 1 t = ''-'' \<or> take 1 t = ''+'' then drop 1 t else t);
          z = takeWhile (isDigit 10) u
      in if z = [] then NaN
         else toDouble (if neg then - digitsValue 10 z else digitsValue 10 z))"

record Config =
  relayUrl :: string
  aggregatorUrl :: string
  aggregatorApiKey :: string
  privateKeyHex :: string
  nonce :: string
  nametag :: string
  coinId :: string
  amount :: int
  dayPassDurationHours :: number
  paymentTimeoutSeconds :: number
  dataDir :: string

text \<open>
  \<^verbatim>\<open>loadConfig\<close> of \<^verbatim>\<open>src/config.ts\<close>. The environment is an argument; \<open>rnd i\<close> is
  what the \<open>i\<close>-th call of \<^verbatim>\<open>randomBytes(32).toString("hex")\<close> returns. The two
  \<^verbatim>\<open>throw\<close> statements and the exception of \<^verbatim>\<open>BigInt\<close> are the \<open>Inl\<close> results.
\<close>

definition loadConfig :: "env \<Rightarrow> (nat \<Rightarrow> string) \<Rightarrow> error + Config" where
  "loadConfig env rnd =
     (let generated = \<not> truthy (env ''MCP_PRIVATE_KEY_HEX'');
          privateKeyHex' = orElse (env ''MCP_PRIVATE_KEY_HEX'') (rnd 0);
          nonce1 = (if generated then Some (rnd 1) else env ''MCP_NONCE_HEX'');
          nonce' = orElse nonce1 (rnd (if generated then 2 else 0))
      in case env ''MCP_NAMETAG'' of
           None \<Rightarrow> Inl NametagRequired
         | Some nametag' \<Rightarrow>
            (if nametag' = [] then Inl NametagRequired
             else
              (case env ''PAYMENT_COIN_ID'' of
                 None \<Rightarrow> Inl CoinIdRequired
               | Some coinId' \<Rightarrow>
                  (if coinId' = [] then Inl CoinIdRequired
                   else
                    (let cleanNametag = trim (replace ''@'' [] (replace ''@unicity'' [] nametag'))
                     in
                      (case BigInt (orElse (env ''PAYMENT_AMOUNT'') ''1000000000'') of
                         None \<Rightarrow> Inl SyntaxError
                       | Some amount' \<Rightarrow>
                           Inr \<lparr> relayUrl = orElse (env ''NOSTR_RELAY_URL'')
                                    ''wss://nostr-relay.testnet.unicity.network'',
                                 aggregatorUrl = orElse (env ''AGGREGATOR_URL'')
                                    ''https://aggregator-test.unicity.network'',
                                 aggregatorApiKey = orElse (env ''AGGREGATOR_API_KEY'')
                                    ''sk_06365a9c44654841a366068bcfc68986'',
                                 privateKeyHex = privateKeyHex',
                                 nonce = nonce',
                                 nametag = cleanNametag,
                                 coinId = coinId',
                                 amount = amount',
                                 dayPassDurationHours =
                                   parseInt10 (orElse (env ''DAY_PASS_HOURS'') ''24''),
                                 paymentTimeoutSeconds =
                                   parseInt10 (orElse (env ''PAYMENT_TIMEOUT_SECONDS'') ''120''),
                                 dataDir = orElse (env ''DATA_DIR'') ''./data'' \<rparr>))))))"

text \<open>
  The first statement of \<^verbatim>\<open>main\<close>: an exception of \<^verbatim>\<open>loadConfig\<close> rejects the promise
  of \<^verbatim>\<open>main\<close>, whose \<^verbatim>\<open>catch\<close> handler calls \<^verbatim>\<open>process.exit(1)\<close>; otherwise \<^verbatim>\<open>main\<close>
  goes on with the configuration.
\<close>

datatype startup = Exit int | Configured Config

definition main_loadConfig :: "env \<Rightarrow> (nat \<Rightarrow> string) \<Rightarrow> startup" where
  "main_loadConfig env rnd =
     (case loadConfig env rnd of Inl e \<Rightarrow> Exit 1 | Inr config \<Rightarrow> Configured config)"

section \<open>Day passes\<close>

text \<open>
  The class \<^verbatim>\<open>PaymentTracker\<close>. Every method takes the reading of the clock as its
  argument \<open>now\<close> and returns the tracker it leaves behind. A reading of the clock is an
  integer number of milliseconds, of a magnitude of at most \<open>8.64e15\<close>, so it is a
  double: the number \<open>Fin now\<close>. The duration and the expiry are numbers, computed
  as the code computes them.
\<close>

record DayPass =
  unicityId :: string
  grantedAt :: number
  expiresAt :: number

record PaymentTracker =
  dayPasses :: "string \<rightharpoonup> DayPass"
  durationMs :: number

definition PaymentTracker_new :: "number \<Rightarrow> PaymentTracker" where
  "PaymentTracker_new durationHours =
     \<lparr> dayPasses = Map.empty,
       durationMs = dmul (dmul (dmul durationHours (Fin 60)) (Fin 60)) (Fin 1000) \<rparr>"

definition grantDayPass :: "int \<Rightarrow> string \<Rightarrow> PaymentTracker \<Rightarrow> DayPass \<times> PaymentTracker" where
  "grantDayPass now uid t =
     (let pass = \<lparr> unicityId = uid, grantedAt = Fin now,
                   expiresAt = dadd (Fin now) (durationMs t) \<rparr>
      in (pass, t\<lparr> dayPasses := (dayPasses t)(toLowerCase uid \<mapsto> pass) \<rparr>))"

definition hasValidPass :: "int \<Rightarrow> string \<Rightarrow> PaymentTracker \<Rightarrow> bool" where
  "hasValidPass now uid t =
     (case dayPasses t (toLowerCase uid) of
        None \<Rightarrow> False
      | Some pass \<Rightarrow> dless (Fin now) (expiresAt pass))"

definition getPass :: "int \<Rightarrow> string \<Rightarrow> PaymentTracker \<Rightarrow> DayPass option \<times> PaymentTracker" where
  "getPass now uid t =
     (case dayPasses t (toLowerCase uid) of
        None \<Rightarrow> (None, t)
      | Some pass \<Rightarrow>
          if dge (Fin now) (expiresAt pass)
          then (None, t\<lparr> dayPasses := (dayPasses t)(toLowerCase uid := None) \<rparr>)
          else (Some pass, t))"

text \<open>\<^verbatim>\<open>getRemainingTime\<close> reads the clock twice: in \<^verbatim>\<open>getPass\<close> and in the subtraction.\<close>

definition getRemainingTime ::
  "int \<Rightarrow> int \<Rightarrow> string \<Rightarrow> PaymentTracker \<Rightarrow> number \<times> PaymentTracker" where
  "getRemainingTime now now' uid t =
     (case getPass now uid t of
        (None, t') \<Rightarrow> (Fin 0, t')
      | (Some pass, t') \<Rightarrow> (dmax (Fin 0) (dsub (expiresAt pass) (Fin now')), t'))"

definition cleanup :: "int \<Rightarrow> PaymentTracker \<Rightarrow> PaymentTracker" where
  "cleanup now t =
     t\<lparr> dayPasses := (\<lambda>key. case dayPasses t key of
                            None \<Rightarrow> None
                          | Some pass \<Rightarrow>
                              if dge (Fin now) (expiresAt pass) then None else Some pass) \<rparr>"

text \<open>A sequence of reads of one handle, at the given clock readings.\<close>

fun getPasses :: "int list \<Rightarrow> string \<Rightarrow> PaymentTracker \<Rightarrow> DayPass option list \<times> PaymentTracker" where
  "getPasses [] uid t = ([], t)"
| "getPasses (now # nows) uid t =
     (case getPass now uid t of
        (r, t') \<Rightarrow> (case getPasses nows uid t' of (rs, t'') \<Rightarrow> (r # rs, t'')))"

section \<open>The Nostr service\<close>

text \<open>
  A JavaScript \<^verbatim>\<open>Map\<close> keeps its entries in insertion order, and the settlement handler
  iterates over it, so \<^verbatim>\<open>pendingPayments\<close> is a list of entries with distinct keys:
  \<^verbatim>\<open>set\<close> on a key that is present replaces the value where it stands and appends
  otherwise, \<^verbatim>\<open>delete\<close> removes the entry of the key.
\<close>

definition Map_has :: "'k \<Rightarrow> ('k \<times> 'v) list \<Rightarrow> bool" where
  "Map_has k m \<longleftrightarrow> k \<in> set (map fst m)"

fun Map_set :: "'k \<Rightarrow> 'v \<Rightarrow> ('k \<times> 'v) list \<Rightarrow> ('k \<times> 'v) list" where
  "Map_set k v [] = [(k, v)]"
| "Map_set k v ((k', v') # m) = (if k' = k then (k, v) # m else (k', v') # Map_set k v m)"

definition Map_delete :: "'k \<Rightarrow> ('k \<times> 'v) list \<Rightarrow> ('k \<times> 'v) list" where
  "Map_delete k m = filter (\<lambda>e. fst e \<noteq> k) m"

text \<open>
  The \<^verbatim>\<open>resolve\<close> field of a pending payment is the resolver of the promise that
  \<^verbatim>\<open>waitForPayment\<close> creates; promises are numbered in the order of their creation,
  and the field holds the number.
\<close>

record PendingPayment =
  requestId :: string
  unicityId :: string
  userPubkey :: string
  amount :: int
  coinId :: string
  createdAt :: int
  resolve :: nat

text \<open>
  A call \<^verbatim>\<open>client.sendPaymentRequest(userPubkey, {amount, coinId, recipientNametag,
  message, requestId})\<close> of the external client, with its arguments in this order.
\<close>

datatype Outbound = SendPaymentRequest string int string string string string

text \<open>
  An inbound event, as \<^verbatim>\<open>TokenTransferProtocol\<close> reads it: whether it is a token
  transfer, its sender, its amount (\<^verbatim>\<open>undefined\<close> is \<open>None\<close>) and the event it
  replies to. An event on which \<^verbatim>\<open>TokenTransferProtocol\<close> throws is not one of these: the
  handler catches the exception before it has changed anything.
\<close>

record Event =
  isTokenTransfer :: bool
  getSender :: string
  getAmount :: "int option"
  getReplyToEventId :: "string option"

text \<open>
  The state of a \<^verbatim>\<open>NostrService\<close> object, with what it has done to the world around it:
  \<^item> \<open>client\<close>, \<open>keyManager\<close>: whether the field is set (not \<^verbatim>\<open>null\<close>);
  \<^item> \<open>outbox\<close>: the calls of \<^verbatim>\<open>client.sendPaymentRequest\<close> made so far;
  \<^item> \<open>queries\<close>: the calls of \<^verbatim>\<open>client.queryPubkeyByNametag\<close> made so far;
  \<^item> \<open>resolutions\<close>: the calls of promise resolvers made so far, with their argument;
  \<^item> \<open>timers\<close>: the callbacks passed to \<^verbatim>\<open>setTimeout\<close> that have not run yet, each with
    the \<^verbatim>\<open>requestId\<close> and the resolver its closure holds;
  \<^item> \<open>promises\<close>: the number of promises created by \<^verbatim>\<open>waitForPayment\<close>.
\<close>

record NostrService =
  client :: bool
  keyManager :: bool
  connected :: bool
  pendingPayments :: "(string \<times> PendingPayment) list"
  outbox :: "Outbound list"
  queries :: "string list"
  resolutions :: "(nat \<times> bool) list"
  timers :: "(string \<times> nat) list"
  promises :: nat

definition NostrService_new :: NostrService where
  "NostrService_new =
     \<lparr> client = False, keyManager = False, connected = False, pendingPayments = [],
       outbox = [], queries = [], resolutions = [], timers = [], promises = 0 \<rparr>"

text \<open>\<^verbatim>\<open>connect\<close>; \<open>ok\<close> tells whether \<^verbatim>\<open>client.connect\<close> succeeds.\<close>

definition connect :: "bool \<Rightarrow> NostrService \<Rightarrow> error option \<times> NostrService" where
  "connect ok ns =
     (if connected ns then (None, ns)
      else if ok then (None, ns\<lparr> keyManager := True, client := True, connected := True \<rparr>)
      else (Some ClientError, ns\<lparr> keyManager := True, client := True \<rparr>))"

definition disconnect :: "NostrService \<Rightarrow> NostrService" where
  "disconnect ns = ns\<lparr> connected := False \<rparr>"

text \<open>
  The body of the loop of \<^verbatim>\<open>handleIncomingTransfer\<close> over the entries of
  \<^verbatim>\<open>pendingPayments\<close>: the first entry that the sender and the amount satisfy is
  resolved with \<^verbatim>\<open>true\<close> and deleted, and the handler returns.
\<close>

definition matches :: "string \<Rightarrow> int option \<Rightarrow> PendingPayment \<Rightarrow> bool" where
  "matches senderPubkey amt pending \<longleftrightarrow>
     userPubkey pending = senderPubkey \<and>
     (case amt of None \<Rightarrow> False | Some a \<Rightarrow> a \<ge> amount pending)"

fun transferLoop ::
  "string \<Rightarrow> int option \<Rightarrow> (string \<times> PendingPayment) list \<Rightarrow> NostrService \<Rightarrow> NostrService" where
  "transferLoop senderPubkey amt [] ns = ns"
| "transferLoop senderPubkey amt ((key, pending) # rest) ns =
     (if matches senderPubkey amt pending
      then ns\<lparr> resolutions := resolutions ns @ [(resolve pending, True)],
               pendingPayments := Map_delete key (pendingPayments ns) \<rparr>
      else transferLoop senderPubkey amt rest ns)"

definition handleIncomingTransfer :: "Event \<Rightarrow> NostrService \<Rightarrow> NostrService" where
  "handleIncomingTransfer event ns =
     (if \<not> keyManager ns then ns
      else if \<not> isTokenTransfer event then ns
      else transferLoop (getSender event) (getAmount event) (pendingPayments ns) ns)"

text \<open>
  \<^verbatim>\<open>NostrService.resolvePubkey\<close>; \<open>dir\<close> is the answer of the relay to
  \<^verbatim>\<open>queryPubkeyByNametag\<close> at the time of the call (\<open>Inr None\<close> is \<^verbatim>\<open>null\<close>).
\<close>

type_synonym directory = "string \<Rightarrow> error + string option"

definition NostrService_resolvePubkey ::
  "directory \<Rightarrow> string \<Rightarrow> NostrService \<Rightarrow> (error + string option) \<times> NostrService" where
  "NostrService_resolvePubkey dir uid ns =
     (if \<not> client ns then (Inl NotConnected, ns)
      else let cleanId = trim (replace ''@'' [] (replace ''@unicity'' [] uid))
           in (dir cleanId, ns\<lparr> queries := queries ns @ [cleanId] \<rparr>))"

text \<open>
  \<^verbatim>\<open>sendPaymentRequest\<close>: \<open>rid\<close> is the identifier that
  \<^verbatim>\<open>Math.random().toString(36).substring(2, 10)\<close> yields, \<open>failure\<close> the rejection of
  \<^verbatim>\<open>client.sendPaymentRequest\<close>, if any. On success the caller gets \<^verbatim>\<open>requestId\<close> and
  the closure \<^verbatim>\<open>waitForPayment\<close>, which holds \<^verbatim>\<open>requestId\<close>, \<^verbatim>\<open>unicityId\<close> and
  \<^verbatim>\<open>userPubkey\<close>: the function \<open>waitForPayment\<close> below takes them as arguments.
\<close>

definition sendPaymentRequest ::
  "Config \<Rightarrow> string \<Rightarrow> error option \<Rightarrow> string \<Rightarrow> string \<Rightarrow> NostrService
     \<Rightarrow> (error + string) \<times> NostrService" where
  "sendPaymentRequest cfg rid failure uid pk ns =
     (if \<not> client ns then (Inl NotConnected, ns)
      else let ns' = ns\<lparr> outbox := outbox ns @
                 [SendPaymentRequest pk (Config.amount cfg) (Config.coinId cfg) (nametag cfg)
                    (''Gaming day pass for @'' @ uid) rid] \<rparr>
           in case failure of
                Some e \<Rightarrow> (Inl e, ns')
              | None \<Rightarrow> (Inr rid, ns'))"

definition waitForPayment ::
  "Config \<Rightarrow> string \<Rightarrow> string \<Rightarrow> string \<Rightarrow> int \<Rightarrow> NostrService \<Rightarrow> nat \<times> NostrService" where
  "waitForPayment cfg rid uid pk now ns =
     (let promise = promises ns;
          pending = \<lparr> requestId = rid, unicityId = uid, userPubkey = pk,
                      amount = Config.amount cfg, coinId = Config.coinId cfg,
                      createdAt = now, resolve = promise \<rparr>
      in (promise,
          ns\<lparr> promises := Suc promise,
              pendingPayments := Map_set rid pending (pendingPayments ns),
              timers := timers ns @ [(rid, promise)] \<rparr>))"

text \<open>
  The callback that \<^verbatim>\<open>waitForPayment\<close> passes to \<^verbatim>\<open>setTimeout\<close>, and the run of a
  scheduled timer, which leaves the queue and calls it.
\<close>

definition timeoutCallback :: "string \<Rightarrow> nat \<Rightarrow> NostrService \<Rightarrow> NostrService" where
  "timeoutCallback rid promise ns =
     (if Map_has rid (pendingPayments ns)
      then ns\<lparr> pendingPayments := Map_delete rid (pendingPayments ns),
               resolutions := resolutions ns @ [(promise, False)] \<rparr>
      else ns)"

definition runTimer :: "string \<times> nat \<Rightarrow> NostrService \<Rightarrow> NostrService" where
  "runTimer timer ns =
     timeoutCallback (fst timer) (snd timer) (ns\<lparr> timers := remove1 timer (timers ns) \<rparr>)"

text \<open>
  The outcome of a promise is the argument of the first call of its resolver; later calls
  have no effect on it.
\<close>

definition outcome :: "nat \<Rightarrow> NostrService \<Rightarrow> bool option" where
  "outcome promise ns = map_of (resolutions ns) promise"

subsection \<open>Runs of the service\<close>

text \<open>
  The service runs on one event loop: what happens to a \<^verbatim>\<open>NostrService\<close> is a sequence
  of the following steps, each of which runs to its end before the next one starts.
  \<^item> \<open>Connect\<close>, \<open>Disconnect\<close>, \<open>ResolvePubkey\<close>: calls of the methods of these names.
  \<^item> \<open>Send\<close>: a call of \<^verbatim>\<open>sendPaymentRequest\<close>, up to the return of its result.
  \<^item> \<open>Wait\<close>: a call of a closure \<^verbatim>\<open>waitForPayment\<close>, with the identifier, the account
    and the key it holds. Nothing keeps \<^verbatim>\<open>Math.random\<close> from yielding an identifier a
    second time, nor a caller from calling a closure again: any identifier may come.
  \<^item> \<open>Transfer\<close>: the subscription delivers an event to \<^verbatim>\<open>handleIncomingTransfer\<close>.
  \<^item> \<open>Timeout\<close>: a scheduled timer runs; only a timer of the queue can.
  A \<open>Timeout\<close> of a timer that is not scheduled yields \<open>None\<close>.
\<close>

datatype action =
    Connect bool
  | Disconnect
  | ResolvePubkey directory string
  | Send string "error option" string string
  | Wait string string string int
  | Transfer Event
  | Timeout string nat

fun step :: "Config \<Rightarrow> action \<Rightarrow> NostrService \<Rightarrow> NostrService option" where
  "step cfg (Connect ok) ns = Some (snd (connect ok ns))"
| "step cfg Disconnect ns = Some (disconnect ns)"
| "step cfg (ResolvePubkey dir uid) ns = Some (snd (NostrService_resolvePubkey dir uid ns))"
| "step cfg (Send rid failure uid pk) ns =
     Some (snd (sendPaymentRequest cfg rid failure uid pk ns))"
| "step cfg (Wait rid uid pk now) ns = Some (snd (waitForPayment cfg rid uid pk now ns))"
| "step cfg (Transfer event) ns = Some (handleIncomingTransfer event ns)"
| "step cfg (Timeout rid promise) ns =
     (if (rid, promise) \<in> set (timers ns) then Some (runTimer (rid, promise) ns) else None)"

fun run :: "Config \<Rightarrow> action list \<Rightarrow> NostrService \<Rightarrow> NostrService option" where
  "run cfg [] ns = Some ns"
| "run cfg (a # as) ns = (case step cfg a ns of None \<Rightarrow> None | Some ns' \<Rightarrow> run cfg as ns')"

text \<open>
  A run registers fresh identifiers when every \<open>Wait\<close> of it comes with an identifier
  that no scheduled timer holds at that moment: no request is registered under the
  identifier of a request whose timer has not run yet.
\<close>

fun freshWait :: "action \<Rightarrow> NostrService \<Rightarrow> bool" where
  "freshWait (Wait rid uid pk now) ns = (rid \<notin> set (map fst (timers ns)))"
| "freshWait a ns = True"

fun fresh :: "Config \<Rightarrow> action list \<Rightarrow> NostrService \<Rightarrow> bool" where
  "fresh cfg [] ns = True"
| "fresh cfg (a # as) ns =
     (freshWait a ns \<and> (case step cfg a ns of None \<Rightarrow> True | Some ns' \<Rightarrow> fresh cfg as ns'))"

text \<open>The steps that leave the map, the timers and the promises as they are.\<close>

fun frames :: "action \<Rightarrow> bool" where
  "frames (Wait k uid pk now) = False"
| "frames (Transfer event) = False"
| "frames (Timeout k promise) = False"
| "frames a = True"

text \<open>The number of calls of the resolver of a promise.\<close>

definition resolveCalls :: "nat \<Rightarrow> NostrService \<Rightarrow> nat" where
  "resolveCalls promise ns = length (filter (\<lambda>r. fst r = promise) (resolutions ns))"

text \<open>The accounts of the pending payments, in the order of the map.\<close>

definition pendingAccounts :: "NostrService \<Rightarrow> string list" where
  "pendingAccounts ns = map (\<lambda>e. unicityId (snd e)) (pendingPayments ns)"

text \<open>
  What holds of the map in every run: its keys are distinct, and every entry stands under
  its own \<^verbatim>\<open>requestId\<close>.
\<close>

definition keyed :: "NostrService \<Rightarrow> bool" where
  "keyed ns \<longleftrightarrow>
     distinct (map fst (pendingPayments ns)) \<and>
     list_all (\<lambda>e. requestId (snd e) = fst e) (pendingPayments ns)"

text \<open>
  What holds of the timers and the promises in every run:
  \<^item> the scheduled timers have distinct promises, all created;
  \<^item> the timer of every pending payment is scheduled, with the resolver of the payment;
  \<^item> only resolvers of created promises are called;
  \<^item> the promise of no pending payment is resolved.
\<close>

definition scheduled :: "NostrService \<Rightarrow> bool" where
  "scheduled ns \<longleftrightarrow>
     distinct (map snd (timers ns)) \<and>
     list_all (\<lambda>t. snd t < promises ns) (timers ns) \<and>
     list_all (\<lambda>e. (fst e, resolve (snd e)) \<in> set (timers ns)) (pendingPayments ns) \<and>
     list_all (\<lambda>r. fst r < promises ns) (resolutions ns) \<and>
     list_all (\<lambda>e. resolve (snd e) \<notin> set (map fst (resolutions ns))) (pendingPayments ns)"

text \<open>
  What holds of them, moreover, in every run that registers fresh identifiers:
  \<^item> the scheduled timers have distinct identifiers and distinct promises, all created;
  \<^item> the timer of every pending payment is scheduled, with the resolver of the payment;
  \<^item> no resolver has been called twice, and only resolvers of created promises are called;
  \<^item> the promise of a scheduled timer is resolved exactly if its entry has left the map;
  \<^item> a created promise whose timer has run is resolved.
\<close>

definition timed :: "NostrService \<Rightarrow> bool" where
  "timed ns \<longleftrightarrow>
     distinct (map fst (timers ns)) \<and> distinct (map snd (timers ns)) \<and>
     list_all (\<lambda>t. snd t < promises ns) (timers ns) \<and>
     list_all (\<lambda>e. (fst e, resolve (snd e)) \<in> set (timers ns)) (pendingPayments ns) \<and>
     distinct (map fst (resolutions ns)) \<and>
     list_all (\<lambda>r. fst r < promises ns) (resolutions ns) \<and>
     list_all (\<lambda>t. (snd t \<in> set (map fst (resolutions ns))) =
                    (\<not> Map_has (fst t) (pendingPayments ns))) (timers ns) \<and>
     list_all (\<lambda>promise. promise \<in> set (map snd (timers ns))
                 \<or> promise \<in> set (map fst (resolutions ns))) [0..<promises ns]"

section \<open>The tool surface\<close>

text \<open>The cache of resolved public keys of \<^verbatim>\<open>index.ts\<close>, and its time to live.\<close>

record CacheEntry =
  pubkey :: string
  timestamp :: int

definition PUBKEY_CACHE_TTL_MS :: int where
  "PUBKEY_CACHE_TTL_MS = 5 * 60 * 1000"

text \<open>The module variables of \<^verbatim>\<open>index.ts\<close>.\<close>

record Server =
  config :: Config
  nostrService :: NostrService
  paymentTracker :: PaymentTracker
  pubkeyCache :: "string \<rightharpoonup> CacheEntry"

definition cacheHit :: "int \<Rightarrow> CacheEntry option \<Rightarrow> bool" where
  "cacheHit now cached =
     (case cached of None \<Rightarrow> False | Some c \<Rightarrow> now - timestamp c < PUBKEY_CACHE_TTL_MS)"

text \<open>
  \<^verbatim>\<open>resolvePubkey\<close> of \<^verbatim>\<open>index.ts\<close>. It reads the clock when it tests the cached entry
  (\<open>now\<close>) and again, after the answer of the relay, when it stores a new one (\<open>now'\<close>).
  A key is stored only when it is truthy: neither \<^verbatim>\<open>null\<close> nor the empty string.
\<close>

definition resolvePubkey ::
  "directory \<Rightarrow> int \<Rightarrow> int \<Rightarrow> string \<Rightarrow> Server \<Rightarrow> (error + string option) \<times> Server" where
  "resolvePubkey dir now now' uid srv =
     (let cleanId = trim (replace ''@'' [] (replace ''@unicity'' [] uid));
          cached = pubkeyCache srv cleanId
      in if cacheHit now cached
         then (Inr (map_option pubkey cached), srv)
         else
          (case NostrService_resolvePubkey dir cleanId (nostrService srv) of
             (Inl e, ns') \<Rightarrow> (Inl e, srv\<lparr> nostrService := ns' \<rparr>)
           | (Inr pk, ns') \<Rightarrow>
               (Inr pk,
                (case pk of
                   None \<Rightarrow> srv\<lparr> nostrService := ns' \<rparr>
                 | Some key \<Rightarrow>
                     if key = [] then srv\<lparr> nostrService := ns' \<rparr>
                     else srv\<lparr> nostrService := ns',
                              pubkeyCache := (pubkeyCache srv)
                                (cleanId \<mapsto> \<lparr> pubkey = key, timestamp = now' \<rparr>) \<rparr>))))"

text \<open>
  The tool \<^verbatim>\<open>confirm_payment\<close>. One call is given what the world answers to it:
  \<^item> \<open>call_dir\<close>: the answer of the relay to the lookup of a handle;
  \<^item> \<open>call_game\<close>: \<open>None\<close> when the call names no game, else whether \<^verbatim>\<open>GAMES\<close> has the
    game;
  \<^item> \<open>call_rid\<close>, \<open>call_failure\<close>: as for \<^const>\<open>sendPaymentRequest\<close>;
  \<^item> the readings of the clock, in the order of the calls of \<^verbatim>\<open>Date.now()\<close>: in the test
    of the cache, at the store into it, in \<^verbatim>\<open>hasValidPass\<close>, twice in
    \<^verbatim>\<open>formatRemainingTime\<close>, and in \<^verbatim>\<open>waitForPayment\<close>.
  The handler runs until it returns a response, throws, or awaits the promise of
  \<^verbatim>\<open>waitForPayment\<close>; \<open>confirm_payment\<close> is this part of it, run with no other handler
  in between, and \<open>confirm_payment_resume\<close> is the rest, run once the promise is resolved
  with \<open>paymentReceived\<close>.
\<close>

datatype response =
  CouldNotFind | GameNotFound | AlreadyActive | PaymentConfirmed DayPass | PaymentTimeout

datatype progress = Throws error | Returns response | Awaits nat

record Call =
  call_dir :: directory
  call_game :: "bool option"
  call_rid :: string
  call_failure :: "error option"
  t_cache :: int
  t_store :: int
  t_valid :: int
  t_remaining :: int
  t_remaining' :: int
  t_created :: int

definition confirm_payment :: "Call \<Rightarrow> string \<Rightarrow> Server \<Rightarrow> progress \<times> Server" where
  "confirm_payment c unicity_id srv =
     (let uid = cleanUnicityId unicity_id
      in case resolvePubkey (call_dir c) (t_cache c) (t_store c) uid srv of
           (Inl e, srv1) \<Rightarrow> (Throws e, srv1)
         | (Inr None, srv1) \<Rightarrow> (Returns CouldNotFind, srv1)
         | (Inr (Some key), srv1) \<Rightarrow>
             if key = [] then (Returns CouldNotFind, srv1)
             else if call_game c = Some False then (Returns GameNotFound, srv1)
             else if hasValidPass (t_valid c) uid (paymentTracker srv1)
             then (Returns AlreadyActive,
                   srv1\<lparr> paymentTracker :=
                     snd (getRemainingTime (t_remaining c) (t_remaining' c) uid
                            (paymentTracker srv1)) \<rparr>)
             else
              (case sendPaymentRequest (config srv1) (call_rid c) (call_failure c) uid key
                      (nostrService srv1) of
                 (Inl e, ns') \<Rightarrow> (Throws e, srv1\<lparr> nostrService := ns' \<rparr>)
               | (Inr requestId', ns') \<Rightarrow>
                  (case waitForPayment (config srv1) requestId' uid key (t_created c) ns' of
                     (promise, ns'') \<Rightarrow> (Awaits promise, srv1\<lparr> nostrService := ns'' \<rparr>))))"

definition confirm_payment_resume ::
  "bool \<Rightarrow> int \<Rightarrow> int \<Rightarrow> int \<Rightarrow> string \<Rightarrow> Server \<Rightarrow> response \<times> Server" where
  "confirm_payment_resume paymentReceived now now' now'' unicity_id srv =
     (if paymentReceived
      then (case grantDayPass now (cleanUnicityId unicity_id) (paymentTracker srv) of
              (pass, t') \<Rightarrow>
                (PaymentConfirmed pass,
                 srv\<lparr> paymentTracker :=
                   snd (getRemainingTime now' now'' (cleanUnicityId unicity_id) t') \<rparr>))
      else (PaymentTimeout, srv))"

section \<open>Examples\<close>

text \<open>Concrete inputs and states, used where a statement is evaluated.\<close>

definition rnd_example :: "nat \<Rightarrow> string" where
  "rnd_example i = replicate 64 (CHR ''0'')"

definition env_example :: env where
  "env_example = [''MCP_NAMETAG'' \<mapsto> ''@gaming-mcp'', ''PAYMENT_COIN_ID'' \<mapsto> ''c1'',
     ''PAYMENT_AMOUNT'' \<mapsto> ''10'']"

definition env_no_coin :: env where
  "env_no_coin = [''MCP_NAMETAG'' \<mapsto> ''@gaming-mcp'']"

definition env_bad_amount :: env where
  "env_bad_amount = [''MCP_NAMETAG'' \<mapsto> ''@gaming-mcp'', ''PAYMENT_COIN_ID'' \<mapsto> ''c1'',
     ''PAYMENT_AMOUNT'' \<mapsto> ''1.5'']"

definition env_empty_nametag :: env where
  "env_empty_nametag = [''MCP_NAMETAG'' \<mapsto> [], ''PAYMENT_COIN_ID'' \<mapsto> ''c1'']"

definition cfg_example :: Config where
  "cfg_example =
     \<lparr> relayUrl = ''wss://nostr-relay.testnet.unicity.network'',
       aggregatorUrl = ''https://aggregator-test.unicity.network'',
       aggregatorApiKey = ''sk_06365a9c44654841a366068bcfc68986'',
       privateKeyHex = replicate 64 (CHR ''0''), nonce = replicate 64 (CHR ''0''),
       nametag = ''gaming-mcp'', Config.coinId = ''c1'', Config.amount = 10,
       dayPassDurationHours = Fin 24, paymentTimeoutSeconds = Fin 120,
       dataDir = ''./data'' \<rparr>"

text \<open>Two requests for the account \<open>alice\<close>, both registered, in a connected service.\<close>

definition two_requests :: "action list" where
  "two_requests =
     [Connect True,
      Send ''r1'' None ''alice'' ''pkA'', Wait ''r1'' ''alice'' ''pkA'' 1000,
      Send ''r2'' None ''alice'' ''pkA'', Wait ''r2'' ''alice'' ''pkA'' 2000]"

definition pending_r1 :: PendingPayment where
  "pending_r1 = \<lparr> requestId = ''r1'', unicityId = ''alice'', userPubkey = ''pkA'',
     amount = 10, coinId = ''c1'', createdAt = 1000, resolve = 0 \<rparr>"

definition pending_r2 :: PendingPayment where
  "pending_r2 = \<lparr> requestId = ''r2'', unicityId = ''alice'', userPubkey = ''pkA'',
     amount = 10, coinId = ''c1'', createdAt = 2000, resolve = 1 \<rparr>"

definition ns_two_requests :: NostrService where
  "ns_two_requests =
     \<lparr> client = True, keyManager = True, connected = True,
       pendingPayments = [(''r1'', pending_r1), (''r2'', pending_r2)],
       outbox = [SendPaymentRequest ''pkA'' 10 ''c1'' ''gaming-mcp''
                   ''Gaming day pass for @alice'' ''r1'',
                 SendPaymentRequest ''pkA'' 10 ''c1'' ''gaming-mcp''
                   ''Gaming day pass for @alice'' ''r2''],
       queries = [], resolutions = [], timers = [(''r1'', 0), (''r2'', 1)], promises = 2 \<rparr>"

text \<open>A transfer of 10 from \<open>pkA\<close> that replies to an event, and one that replies to none.\<close>

definition transfer_reply :: "string option \<Rightarrow> Event" where
  "transfer_reply reply =
     \<lparr> isTokenTransfer = True, getSender = ''pkA'', getAmount = Some 10,
       getReplyToEventId = reply \<rparr>"


text \<open>The pass that a tracker of 24 hours grants to \<open>Alice\<close> at time 1000.\<close>

definition pass_alice :: DayPass where
  "pass_alice =
     \<lparr> DayPass.unicityId = ''Alice'', grantedAt = Fin 1000, expiresAt = Fin 86401000 \<rparr>"

definition tracker_alice :: PaymentTracker where
  "tracker_alice = \<lparr> dayPasses = [''alice'' \<mapsto> pass_alice], durationMs = Fin 86400000 \<rparr>"

text \<open>A transfer from \<open>pkA\<close> of an amount that is too small.\<close>

definition transfer_small :: Event where
  "transfer_small =
     \<lparr> isTokenTransfer = True, getSender = ''pkA'', getAmount = Some 5,
       getReplyToEventId = None \<rparr>"

text \<open>
  The two requests, followed by a transfer of 10 from \<open>pkA\<close>, and then by both timers,
  with the states they lead to.
\<close>

definition ns_one_settled :: NostrService where
  "ns_one_settled =
     ns_two_requests\<lparr> pendingPayments := [(''r2'', pending_r2)], resolutions := [(0, True)] \<rparr>"

definition ns_all_settled :: NostrService where
  "ns_all_settled =
     ns_two_requests\<lparr> pendingPayments := [], resolutions := [(0, True), (1, False)],
       timers := [] \<rparr>"

definition one_settled :: "action list" where
  "one_settled = two_requests @ [Transfer (transfer_reply None)]"

definition all_settled :: "action list" where
  "all_settled = one_settled @ [Timeout ''r1'' 0, Timeout ''r2'' 1]"

text \<open>
  A request that is matched, a second request that \<^verbatim>\<open>Math.random\<close> gives the identifier
  of the first one, and the two timers.
\<close>

definition reused_identifier :: "action list" where
  "reused_identifier =
     [Connect True,
      Send ''r1'' None ''alice'' ''pkA'', Wait ''r1'' ''alice'' ''pkA'' 1000,
      Transfer (transfer_reply None),
      Send ''r1'' None ''alice'' ''pkA'', Wait ''r1'' ''alice'' ''pkA'' 2000,
      Timeout ''r1'' 0, Timeout ''r1'' 1]"

definition ns_reused_identifier :: NostrService where
  "ns_reused_identifier =
     \<lparr> client = True, keyManager = True, connected = True, pendingPayments = [],
       outbox = [SendPaymentRequest ''pkA'' 10 ''c1'' ''gaming-mcp''
                   ''Gaming day pass for @alice'' ''r1'',
                 SendPaymentRequest ''pkA'' 10 ''c1'' ''gaming-mcp''
                   ''Gaming day pass for @alice'' ''r1''],
       queries = [], resolutions = [(0, True), (0, False)], timers = [], promises = 2 \<rparr>"

text \<open>
  A tracker of 2501999792984 hours, whose duration is a double above \<open>2 ^ 53\<close>, and a
  tracker whose duration is what \<^verbatim>\<open>parseInt\<close> reads in \<open>abc\<close>.
\<close>

definition tracker_long :: PaymentTracker where
  "tracker_long = PaymentTracker_new (parseInt10 ''2501999792984'')"

definition tracker_nan :: PaymentTracker where
  "tracker_nan = PaymentTracker_new (parseInt10 ''abc'')"

text \<open>
  A server whose service is connected, a relay that knows the handle \<open>alice\<close> only, two
  calls of \<^verbatim>\<open>confirm_payment\<close> and the states after the first and after both of them, the
  second call with a request that the client rejects, the steps that settle both requests,
  and the server after a lookup of \<open>bob\<close>.
\<close>

definition dir_example :: directory where
  "dir_example handle = (if handle = ''alice'' then Inr (Some ''pkA'') else Inr None)"

definition srv_example :: Server where
  "srv_example =
     \<lparr> config = cfg_example,
       nostrService = NostrService_new\<lparr> client := True, keyManager := True, connected := True \<rparr>,
       paymentTracker = PaymentTracker_new (Fin 24),
       pubkeyCache = Map.empty \<rparr>"

definition call_r1 :: Call where
  "call_r1 =
     \<lparr> call_dir = dir_example, call_game = None, call_rid = ''r1'', call_failure = None,
       t_cache = 900, t_store = 950, t_valid = 960, t_remaining = 960, t_remaining' = 960,
       t_created = 1000 \<rparr>"


definition srv_one_waiting :: Server where
  "srv_one_waiting = snd (confirm_payment call_r1 ''@alice'' srv_example)"





definition srv_bob_asked :: Server where
  "srv_bob_asked =
     srv_example\<lparr> nostrService := (nostrService srv_example)\<lparr> queries := [''bob''] \<rparr> \<rparr>"

section \<open>Numbers that are exact\<close>

lemma toDouble_exact: "\<bar>n\<bar> < 2 ^ 53 \<Longrightarrow> toDouble n = Fin n"
proof -
  assume "\<bar>n\<bar> < 2 ^ 53"
  then have m: "nat \<bar>n\<bar> < 2 ^ 53"
    by (simp add: nat_less_iff)
  have "(2::nat) ^ 53 \<le> 2 ^ 1024"
    by (rule power_increasing) simp_all
  with m have "\<not> nat \<bar>n\<bar> \<ge> 2 ^ 1024"
    by linarith
  with m show ?thesis
    by (simp add: toDouble_def roundMagnitude_def Let_def)
qed

lemma widths:
  "width 9007199254742400 = 54"
  "width 9007199254742400000 = 63"
  "width 9007199254742401001 = 63"
  by (simp_all add: width.simps)

section \<open>Loading the configuration\<close>

lemmas parse_defs = BigInt_def trim_def isWhiteSpace_def digits_def isDigit_def digitVal_def
  digitsValue_def orElse_def truthy_def

lemma loadConfig_Inl_iff:
  "(\<exists>e. loadConfig env rnd = Inl e) \<longleftrightarrow>
     \<not> truthy (env ''MCP_NAMETAG'') \<or> \<not> truthy (env ''PAYMENT_COIN_ID'')
     \<or> BigInt (orElse (env ''PAYMENT_AMOUNT'') ''1000000000'') = None"
  by (auto simp: loadConfig_def truthy_def Let_def split: option.splits)

text \<open>
  Claim C8, as the code has it. When \<open>MCP_NAMETAG\<close> or \<open>PAYMENT_COIN_ID\<close> is absent,
  \<^const>\<open>loadConfig\<close> raises and \<^verbatim>\<open>main\<close> exits with status 1. When both are present and
  not empty, and \<open>PAYMENT_AMOUNT\<close> (or its default, when the variable is absent or empty)
  is an integer literal that \<^const>\<open>BigInt\<close> accepts, \<^const>\<open>loadConfig\<close> returns a
  configuration.
\<close>

theorem loadConfig_required_settings:
  "(env ''MCP_NAMETAG'' = None \<or> env ''PAYMENT_COIN_ID'' = None \<longrightarrow>
      (\<exists>e. loadConfig env rnd = Inl e) \<and> main_loadConfig env rnd = Exit 1)
   \<and> (truthy (env ''MCP_NAMETAG'') \<and> truthy (env ''PAYMENT_COIN_ID'')
        \<and> BigInt (orElse (env ''PAYMENT_AMOUNT'') ''1000000000'') \<noteq> None \<longrightarrow>
      (\<exists>config. loadConfig env rnd = Inr config
         \<and> main_loadConfig env rnd = Configured config))"
proof (intro conjI impI)
  assume absent: "env ''MCP_NAMETAG'' = None \<or> env ''PAYMENT_COIN_ID'' = None"
  then have "\<not> truthy (env ''MCP_NAMETAG'') \<or> \<not> truthy (env ''PAYMENT_COIN_ID'')"
    by (auto simp: truthy_def)
  then show raised: "\<exists>e. loadConfig env rnd = Inl e"
    unfolding loadConfig_Inl_iff by blast
  then show "main_loadConfig env rnd = Exit 1"
    by (auto simp: main_loadConfig_def)
next
  assume "truthy (env ''MCP_NAMETAG'') \<and> truthy (env ''PAYMENT_COIN_ID'')
    \<and> BigInt (orElse (env ''PAYMENT_AMOUNT'') ''1000000000'') \<noteq> None"
  then have "\<not> (\<exists>e. loadConfig env rnd = Inl e)"
    unfolding loadConfig_Inl_iff by blast
  then obtain config where "loadConfig env rnd = Inr config"
    by (cases "loadConfig env rnd") auto
  then show "\<exists>config. loadConfig env rnd = Inr config
      \<and> main_loadConfig env rnd = Configured config"
    by (simp add: main_loadConfig_def)
qed


text \<open>
  The theorem at two environments: one without \<open>PAYMENT_COIN_ID\<close>, where
  \<^const>\<open>loadConfig\<close> raises, and one with both settings and the amount \<open>10\<close>, where it
  returns the configuration.
\<close>

theorem loadConfig_required_settings_witness:
  "env_no_coin ''PAYMENT_COIN_ID'' = None
   \<and> loadConfig env_no_coin rnd_example = Inl CoinIdRequired
   \<and> main_loadConfig env_no_coin rnd_example = Exit 1
   \<and> truthy (env_example ''MCP_NAMETAG'') \<and> truthy (env_example ''PAYMENT_COIN_ID'')
   \<and> BigInt (orElse (env_example ''PAYMENT_AMOUNT'') ''1000000000'') = Some 10
   \<and> loadConfig env_example rnd_example = Inr cfg_example
   \<and> main_loadConfig env_example rnd_example = Configured cfg_example"
  using loadConfig_required_settings [of env_no_coin rnd_example]
    loadConfig_required_settings [of env_example rnd_example]
  by (simp add: env_no_coin_def env_example_def loadConfig_def main_loadConfig_def parse_defs
      cfg_example_def rnd_example_def parseInt10_def toDouble_exact)

text \<open>
  Claim C8 as it is written fails: with both required settings present,
  \<^const>\<open>loadConfig\<close> still raises when \<open>PAYMENT_AMOUNT\<close> is \<open>1.5\<close>, which \<^const>\<open>BigInt\<close>
  rejects, and when \<open>MCP_NAMETAG\<close> is present but empty.
\<close>

theorem loadConfig_present_counterexample:
  "env_bad_amount ''MCP_NAMETAG'' = Some ''@gaming-mcp''
   \<and> env_bad_amount ''PAYMENT_COIN_ID'' = Some ''c1''
   \<and> loadConfig env_bad_amount rnd_example = Inl SyntaxError
   \<and> env_empty_nametag ''MCP_NAMETAG'' = Some []
   \<and> env_empty_nametag ''PAYMENT_COIN_ID'' = Some ''c1''
   \<and> loadConfig env_empty_nametag rnd_example = Inl NametagRequired"
  by (simp add: env_bad_amount_def env_empty_nametag_def loadConfig_def parse_defs)

section \<open>The day pass of an account\<close>

lemma getPass_valid:
  "dayPasses t (toLowerCase uid) = Some pass \<Longrightarrow> \<not> dge (Fin now) (expiresAt pass) \<Longrightarrow>
   getPass now uid t = (Some pass, t)"
  by (simp add: getPass_def)

lemma getPasses_valid:
  "dayPasses t (toLowerCase uid) = Some pass \<Longrightarrow>
   \<forall>now \<in> set nows. \<not> dge (Fin now) (expiresAt pass) \<Longrightarrow>
   getPasses nows uid t = (replicate (length nows) (Some pass), t)"
  by (induction nows) (simp_all add: getPass_valid)

text \<open>
  Claim C6, as the code has it. After \<^const>\<open>grantDayPass\<close> at the clock reading \<open>now\<close>, the
  pass that is returned and stored was granted at \<open>now\<close>, and its expiry is the number
  that \<^verbatim>\<open>now + this.durationMs\<close> yields. When the duration is a finite number \<open>d\<close> and
  \<open>now + d\<close> is below \<open>2 ^ 53\<close> in magnitude, that number is \<open>now + d\<close> exactly. Every
  sequence of reads by \<^const>\<open>getPass\<close> at clock readings that have not reached the expiry
  (\<^verbatim>\<open>Date.now() >= pass.expiresAt\<close> is false) returns this same pass each time and leaves
  the tracker as it is.
\<close>

theorem grantDayPass_getPass_roundtrip:
  assumes grant: "grantDayPass now uid t = (pass, t')"
  shows "grantedAt pass = Fin now
    \<and> expiresAt pass = dadd (grantedAt pass) (durationMs t)
    \<and> dayPasses t' (toLowerCase uid) = Some pass
    \<and> (durationMs t = Fin d \<and> \<bar>now + d\<bar> < 2 ^ 53 \<longrightarrow> expiresAt pass = Fin (now + d))
    \<and> ((\<forall>n \<in> set nows. \<not> dge (Fin n) (expiresAt pass)) \<longrightarrow>
          getPasses nows uid t' = (replicate (length nows) (Some pass), t'))"
proof -
  from grant
  have pass: "pass = \<lparr> DayPass.unicityId = uid, grantedAt = Fin now,
      expiresAt = dadd (Fin now) (durationMs t) \<rparr>"
    and t': "t' = t\<lparr> dayPasses := (dayPasses t)(toLowerCase uid \<mapsto> pass) \<rparr>"
    by (auto simp: grantDayPass_def Let_def)
  have stored: "dayPasses t' (toLowerCase uid) = Some pass"
    by (simp add: t')
  have exact: "expiresAt pass = Fin (now + d)"
    if "durationMs t = Fin d" "\<bar>now + d\<bar> < 2 ^ 53"
    using that by (simp add: pass toDouble_exact)
  have reads: "getPasses nows uid t' = (replicate (length nows) (Some pass), t')"
    if "\<forall>n \<in> set nows. \<not> dge (Fin n) (expiresAt pass)"
    using stored that by (rule getPasses_valid)
  from stored exact reads show ?thesis
    by (simp add: pass)
qed

lemma toLowerCase_Alice: "toLowerCase ''Alice'' = ''alice''"
  by code_simp

lemma duration_24: "durationMs (PaymentTracker_new (Fin 24)) = Fin 86400000"
  by (simp add: PaymentTracker_new_def toDouble_exact)

lemma grant_alice:
  "grantDayPass 1000 ''Alice'' (PaymentTracker_new (Fin 24)) = (pass_alice, tracker_alice)"
  by (simp add: grantDayPass_def PaymentTracker_new_def pass_alice_def tracker_alice_def
      toLowerCase_Alice Let_def toDouble_exact)

text \<open>
  The theorem on a tracker of 24 hours: the pass granted to \<open>Alice\<close> at the clock reading
  1000 expires at 86401000, and three reads, the last one a millisecond before the expiry,
  return it.
\<close>

theorem grantDayPass_getPass_roundtrip_witness:
  "grantDayPass 1000 ''Alice'' (PaymentTracker_new (Fin 24)) = (pass_alice, tracker_alice)
   \<and> durationMs (PaymentTracker_new (Fin 24)) = Fin 86400000
   \<and> grantedAt pass_alice = Fin 1000
   \<and> expiresAt pass_alice = Fin (1000 + 86400000)
   \<and> getPasses [1000, 5000, 86400999] ''Alice'' tracker_alice
       = ([Some pass_alice, Some pass_alice, Some pass_alice], tracker_alice)"
  using grantDayPass_getPass_roundtrip
    [OF grant_alice, of 86400000 "[1000, 5000, 86400999]"]
  by (simp add: grant_alice duration_24) (simp add: pass_alice_def dge_def)

lemma duration_long: "durationMs tracker_long = Fin 9007199254742400000"
  by (simp add: tracker_long_def PaymentTracker_new_def parseInt10_def isWhiteSpace_def
      isDigit_def digitVal_def digitsValue_def toDouble_def roundMagnitude_def widths Let_def)

lemma duration_nan: "durationMs tracker_nan = NaN"
  by (simp add: tracker_nan_def PaymentTracker_new_def parseInt10_def isWhiteSpace_def
      isDigit_def digitVal_def)

text \<open>
  Claim C6 as it is written fails: the expiry is not the sum of the grant time and the
  duration for every duration. With \<open>DAY_PASS_HOURS=2501999792984\<close> the duration is
  9007199254742400000 milliseconds, and the pass granted at the clock reading 1001 expires
  at 9007199254742401024, the double nearest to the sum 9007199254742401001. With
  \<open>DAY_PASS_HOURS=abc\<close> the duration and the expiry are \<^verbatim>\<open>NaN\<close>.
\<close>

theorem grantDayPass_rounded_counterexample:
  "durationMs tracker_long = Fin 9007199254742400000
   \<and> grantedAt (fst (grantDayPass 1001 ''alice'' tracker_long)) = Fin 1001
   \<and> expiresAt (fst (grantDayPass 1001 ''alice'' tracker_long)) = Fin 9007199254742401024
   \<and> expiresAt (fst (grantDayPass 1001 ''alice'' tracker_long))
       \<noteq> Fin (1001 + 9007199254742400000)
   \<and> durationMs tracker_nan = NaN
   \<and> expiresAt (fst (grantDayPass 1001 ''alice'' tracker_nan)) = NaN"
  by (simp add: grantDayPass_def Let_def duration_long duration_nan)
     (simp add: toDouble_def roundMagnitude_def widths Let_def)

section \<open>The settlement handler\<close>

lemma transferLoop_find:
  "transferLoop s a es ns =
     (case find (\<lambda>e. matches s a (snd e)) es of
        None \<Rightarrow> ns
      | Some e \<Rightarrow> ns\<lparr> resolutions := resolutions ns @ [(resolve (snd e), True)],
                      pendingPayments := Map_delete (fst e) (pendingPayments ns) \<rparr>)"
  by (induction es) auto

lemma find_first:
  "\<forall>e \<in> set xs. \<not> P e \<Longrightarrow> P x \<Longrightarrow> find P (xs @ x # ys) = Some x"
  by (induction xs) auto

lemma find_none: "\<forall>e \<in> set xs. \<not> P e \<Longrightarrow> find P xs = None"
  by (induction xs) auto

lemma Map_delete_middle:
  "distinct (map fst (xs @ (k, v) # ys)) \<Longrightarrow> Map_delete k (xs @ (k, v) # ys) = xs @ ys"
proof -
  assume "distinct (map fst (xs @ (k, v) # ys))"
  then have "\<forall>e \<in> set xs. fst e \<noteq> k" and "\<forall>e \<in> set ys. fst e \<noteq> k"
    by auto
  then have "filter (\<lambda>e. fst e \<noteq> k) xs = xs" and "filter (\<lambda>e. fst e \<noteq> k) ys = ys"
    by (simp_all add: filter_id_conv)
  then show ?thesis
    by (simp add: Map_delete_def)
qed

lemma Map_delete_keeps: "e \<in> set m \<Longrightarrow> fst e \<noteq> k \<Longrightarrow> e \<in> set (Map_delete k m)"
  by (simp add: Map_delete_def)

lemma Map_has_delete: "\<not> Map_has k (Map_delete k m)"
  by (auto simp: Map_has_def Map_delete_def)

lemma handle_find:
  "keyManager ns \<Longrightarrow> isTokenTransfer event \<Longrightarrow>
   handleIncomingTransfer event ns =
     (case find (\<lambda>e. matches (getSender event) (getAmount event) (snd e)) (pendingPayments ns) of
        None \<Rightarrow> ns
      | Some e \<Rightarrow> ns\<lparr> resolutions := resolutions ns @ [(resolve (snd e), True)],
                      pendingPayments := Map_delete (fst e) (pendingPayments ns) \<rparr>)"
  by (simp add: handleIncomingTransfer_def transferLoop_find)

text \<open>
  Claim C9. One transfer event resolves at most one pending payment. When the map is
  \<open>xs @ (key, pending) # ys\<close>, no entry of \<open>xs\<close> is satisfied by the sender and the
  amount of the event and \<open>pending\<close> is, the handler calls the resolver of \<open>pending\<close>
  with \<open>True\<close>, and nothing else, and the map becomes \<open>xs @ ys\<close>: every other entry,
  satisfied or not, stays where it was, unchanged.
\<close>

theorem transfer_resolves_first_match_only:
  assumes "keyManager ns" and "isTokenTransfer event"
    and entries: "pendingPayments ns = xs @ (key, pending) # ys"
    and keys: "distinct (map fst (pendingPayments ns))"
    and earlier: "\<forall>e \<in> set xs. \<not> matches (getSender event) (getAmount event) (snd e)"
    and hit: "matches (getSender event) (getAmount event) pending"
  shows "handleIncomingTransfer event ns =
    ns\<lparr> resolutions := resolutions ns @ [(resolve pending, True)], pendingPayments := xs @ ys \<rparr>"
proof -
  have "find (\<lambda>e. matches (getSender event) (getAmount event) (snd e)) (pendingPayments ns)
      = Some (key, pending)"
    unfolding entries using earlier hit by (intro find_first) simp_all
  moreover have "Map_delete key (pendingPayments ns) = xs @ ys"
    using keys unfolding entries by (rule Map_delete_middle)
  ultimately show ?thesis
    using assms(1,2) by (simp add: handle_find)
qed

text \<open>
  The theorem on two pending payments of the same payer and amount: the transfer resolves
  the first one, and the second one, which it satisfies as well, stays.
\<close>

theorem transfer_resolves_first_match_only_witness:
  "handleIncomingTransfer (transfer_reply None) ns_two_requests =
     ns_two_requests\<lparr> resolutions := [(0, True)], pendingPayments := [(''r2'', pending_r2)] \<rparr>
   \<and> matches ''pkA'' (Some 10) pending_r2"
  using transfer_resolves_first_match_only [of ns_two_requests "transfer_reply None" "[]"
      "''r1''" pending_r1 "[(''r2'', pending_r2)]"]
  by (simp add: ns_two_requests_def transfer_reply_def matches_def pending_r1_def pending_r2_def)


lemmas example_defs = ns_two_requests_def transfer_reply_def transfer_small_def matches_def
  pending_r1_def pending_r2_def Map_delete_def Map_has_def outcome_def

text \<open>
  Claim C4, as the code has it. For a pending payment \<open>(key, pending)\<close> of the map and a
  token transfer:
  \<^item> if the sender is the payer and the amount suffices, and \<open>pending\<close> is the first entry
    of the map that the event satisfies, then its resolver is called with \<open>True\<close> and its
    entry is removed;
  \<^item> if the sender differs or the amount is missing or too small, the entry stays in the
    map;
  \<^item> if the event satisfies no entry of the map, the service is left as it was.
\<close>

theorem transfer_match_and_mismatch:
  assumes km: "keyManager ns" and tt: "isTokenTransfer event"
    and keys: "distinct (map fst (pendingPayments ns))"
    and entry: "(key, pending) \<in> set (pendingPayments ns)"
  shows
    "(userPubkey pending = getSender event \<and> getAmount event = Some a \<and> a \<ge> amount pending
       \<and> find (\<lambda>e. matches (getSender event) (getAmount event) (snd e)) (pendingPayments ns)
           = Some (key, pending) \<longrightarrow>
        resolutions (handleIncomingTransfer event ns) = resolutions ns @ [(resolve pending, True)]
        \<and> \<not> Map_has key (pendingPayments (handleIncomingTransfer event ns)))
     \<and> (\<not> matches (getSender event) (getAmount event) pending \<longrightarrow>
        (key, pending) \<in> set (pendingPayments (handleIncomingTransfer event ns)))
     \<and> ((\<forall>e \<in> set (pendingPayments ns). \<not> matches (getSender event) (getAmount event) (snd e))
        \<longrightarrow> handleIncomingTransfer event ns = ns)"
proof (intro conjI impI)
  assume "userPubkey pending = getSender event \<and> getAmount event = Some a \<and> a \<ge> amount pending
    \<and> find (\<lambda>e. matches (getSender event) (getAmount event) (snd e)) (pendingPayments ns)
        = Some (key, pending)"
  then have first: "find (\<lambda>e. matches (getSender event) (getAmount event) (snd e))
      (pendingPayments ns) = Some (key, pending)"
    by blast
  show "resolutions (handleIncomingTransfer event ns) = resolutions ns @ [(resolve pending, True)]"
    using km tt first by (simp add: handle_find)
  show "\<not> Map_has key (pendingPayments (handleIncomingTransfer event ns))"
    using km tt first by (simp add: handle_find Map_has_delete)
next
  assume miss: "\<not> matches (getSender event) (getAmount event) pending"
  show "(key, pending) \<in> set (pendingPayments (handleIncomingTransfer event ns))"
  proof (cases "find (\<lambda>e. matches (getSender event) (getAmount event) (snd e)) (pendingPayments ns)")
    case None
    then show ?thesis using km tt entry by (simp add: handle_find)
  next
    case (Some e)
    then have "matches (getSender event) (getAmount event) (snd e)" and "e \<in> set (pendingPayments ns)"
      by (auto simp: find_Some_iff)
    with miss have "e \<noteq> (key, pending)" by auto
    with keys entry \<open>e \<in> set (pendingPayments ns)\<close> have "key \<noteq> fst e"
      by (cases e) (auto dest: eq_key_imp_eq_value)
    with entry have "(key, pending) \<in> set (Map_delete (fst e) (pendingPayments ns))"
      by (simp add: Map_delete_def)
    with Some show ?thesis using km tt by (simp add: handle_find)
  qed
next
  assume "\<forall>e \<in> set (pendingPayments ns). \<not> matches (getSender event) (getAmount event) (snd e)"
  then have "find (\<lambda>e. matches (getSender event) (getAmount event) (snd e)) (pendingPayments ns) = None"
    by (rule find_none)
  then show "handleIncomingTransfer event ns = ns"
    using km tt by (simp add: handle_find)
qed


text \<open>
  The theorem on two pending payments: a transfer of 10 resolves the first of them, a
  transfer of 5 leaves the service as it was.
\<close>

theorem transfer_match_and_mismatch_witness:
  "resolutions (handleIncomingTransfer (transfer_reply None) ns_two_requests) = [(0, True)]
   \<and> \<not> Map_has ''r1'' (pendingPayments (handleIncomingTransfer (transfer_reply None) ns_two_requests))
   \<and> \<not> matches (getSender transfer_small) (getAmount transfer_small) pending_r1
   \<and> (''r1'', pending_r1) \<in> set (pendingPayments (handleIncomingTransfer transfer_small ns_two_requests))
   \<and> handleIncomingTransfer transfer_small ns_two_requests = ns_two_requests"
  using transfer_match_and_mismatch [of ns_two_requests "transfer_reply None" "''r1''" pending_r1 10]
    transfer_match_and_mismatch [of ns_two_requests transfer_small "''r1''" pending_r1 5]
  by (simp add: example_defs)

text \<open>
  Claim C4 as it is written fails for a payment that is not the first one the event
  satisfies: the transfer of 10 from \<open>pkA\<close> has the sender and the amount of the second
  pending payment, which stays in the map with its promise unresolved.
\<close>

theorem transfer_second_match_counterexample:
  "(''r2'', pending_r2) \<in> set (pendingPayments ns_two_requests)
   \<and> userPubkey pending_r2 = getSender (transfer_reply None)
   \<and> getAmount (transfer_reply None) = Some 10 \<and> 10 \<ge> amount pending_r2
   \<and> Map_has ''r2'' (pendingPayments (handleIncomingTransfer (transfer_reply None) ns_two_requests))
   \<and> outcome (resolve pending_r2) (handleIncomingTransfer (transfer_reply None) ns_two_requests) = None"
  by (simp add: handleIncomingTransfer_def example_defs)

text \<open>
  Claim C3, as the code has it. The handler does not read the event a transfer replies to:
  with any other reply reference the outcome is the same, and it is always that of the
  search by sender and amount, which resolves the first entry of the map that the event
  satisfies and leaves the service as it was when there is none.
\<close>

theorem transfer_ignores_reply_reference:
  assumes "keyManager ns" and "isTokenTransfer event"
  shows "handleIncomingTransfer (event\<lparr> getReplyToEventId := reply \<rparr>) ns
      = handleIncomingTransfer event ns
    \<and> handleIncomingTransfer event ns =
       (case find (\<lambda>e. matches (getSender event) (getAmount event) (snd e)) (pendingPayments ns) of
          None \<Rightarrow> ns
        | Some e \<Rightarrow> ns\<lparr> resolutions := resolutions ns @ [(resolve (snd e), True)],
                        pendingPayments := Map_delete (fst e) (pendingPayments ns) \<rparr>)"
  using assms by (simp add: handle_find)

text \<open>
  The theorem on two pending payments: the transfer that replies to \<open>r2\<close> does what the
  transfer that replies to nothing does, and resolves \<open>r1\<close>.
\<close>

theorem transfer_ignores_reply_reference_witness:
  "handleIncomingTransfer (transfer_reply (Some ''r2'')) ns_two_requests
     = handleIncomingTransfer (transfer_reply None) ns_two_requests
   \<and> handleIncomingTransfer (transfer_reply None) ns_two_requests
     = ns_two_requests\<lparr> resolutions := [(0, True)], pendingPayments := [(''r2'', pending_r2)] \<rparr>"
  using transfer_ignores_reply_reference [of ns_two_requests "transfer_reply None" "Some ''r2''"]
  by (simp add: example_defs)

text \<open>
  Claim C3 as it is written fails: a transfer whose reply reference is the \<^verbatim>\<open>requestId\<close>
  of the second pending payment resolves the first one, and the second one stays pending.
\<close>

theorem transfer_reply_reference_counterexample:
  "getReplyToEventId (transfer_reply (Some ''r2'')) = Some (requestId pending_r2)
   \<and> (''r2'', pending_r2) \<in> set (pendingPayments ns_two_requests)
   \<and> outcome (resolve pending_r1) (handleIncomingTransfer (transfer_reply (Some ''r2'')) ns_two_requests)
       = Some True
   \<and> outcome (resolve pending_r2) (handleIncomingTransfer (transfer_reply (Some ''r2'')) ns_two_requests)
       = None
   \<and> pendingPayments (handleIncomingTransfer (transfer_reply (Some ''r2'')) ns_two_requests)
       = [(''r2'', pending_r2)]"
  by (simp add: handleIncomingTransfer_def example_defs)

section \<open>Invariants of the runs\<close>

lemma Map_set_absent: "k \<notin> fst ` set m \<Longrightarrow> Map_set k v m = m @ [(k, v)]"
  by (induction k v m rule: Map_set.induct) auto

lemma Map_set_keys: "fst ` set (Map_set k v m) = insert k (fst ` set m)"
  by (induction k v m rule: Map_set.induct) auto

lemma Map_set_distinct: "distinct (map fst m) \<Longrightarrow> distinct (map fst (Map_set k v m))"
  by (induction k v m rule: Map_set.induct) (auto simp: Map_set_keys)

lemma Map_set_subset: "set (Map_set k v m) \<subseteq> insert (k, v) (set m)"
  by (induction k v m rule: Map_set.induct) auto

lemma Map_delete_distinct: "distinct (map fst m) \<Longrightarrow> distinct (map fst (Map_delete k m))"
  by (simp add: Map_delete_def distinct_map_filter)

lemma Map_delete_set: "set (Map_delete k m) = {e \<in> set m. fst e \<noteq> k}"
  by (auto simp: Map_delete_def)

lemma keyed_iff:
  "keyed ns \<longleftrightarrow> distinct (map fst (pendingPayments ns)) \<and>
     (\<forall>e \<in> set (pendingPayments ns). requestId (snd e) = fst e)"
  by (simp add: keyed_def list_all_iff)

lemma transferLoop_cases:
  "transferLoop s a es ns = ns \<or>
   (\<exists>e \<in> set es. matches s a (snd e) \<and>
      transferLoop s a es ns = ns\<lparr> resolutions := resolutions ns @ [(resolve (snd e), True)],
                      pendingPayments := Map_delete (fst e) (pendingPayments ns) \<rparr>)"
  by (induction s a es ns rule: transferLoop.induct) auto

lemma handle_cases:
  "handleIncomingTransfer event ns = ns \<or>
   (\<exists>e \<in> set (pendingPayments ns). matches (getSender event) (getAmount event) (snd e) \<and>
      handleIncomingTransfer event ns =
        ns\<lparr> resolutions := resolutions ns @ [(resolve (snd e), True)],
            pendingPayments := Map_delete (fst e) (pendingPayments ns) \<rparr>)"
  using transferLoop_cases [of "getSender event" "getAmount event" "pendingPayments ns" ns]
  by (auto simp: handleIncomingTransfer_def)

lemma keyed_delete:
  "keyed ns \<Longrightarrow> keyed (ns\<lparr> resolutions := r, pendingPayments := Map_delete k (pendingPayments ns) \<rparr>)"
  by (auto simp: keyed_iff Map_delete_distinct Map_delete_set)

lemma step_frame:
  "frames a \<Longrightarrow> step cfg a ns = Some ns' \<Longrightarrow>
   pendingPayments ns' = pendingPayments ns \<and> timers ns' = timers ns \<and>
   promises ns' = promises ns \<and> resolutions ns' = resolutions ns"
  by (cases a) (auto simp: connect_def disconnect_def NostrService_resolvePubkey_def
      sendPaymentRequest_def Let_def split: if_splits option.splits)

lemma keyed_step: "keyed ns \<Longrightarrow> step cfg a ns = Some ns' \<Longrightarrow> keyed ns'"
proof (cases "frames a")
  case True
  assume "keyed ns" "step cfg a ns = Some ns'"
  with step_frame [OF True, of cfg ns ns'] show ?thesis
    by (simp add: keyed_def)
next
  case False
  assume inv: "keyed ns" and st: "step cfg a ns = Some ns'"
  from False inv st show ?thesis
  proof (cases a)
  case (Wait rid uid pk now)
  with inv st show ?thesis
    using Map_set_subset [of rid _ "pendingPayments ns"]
    by (fastforce simp: keyed_iff waitForPayment_def Let_def Map_set_distinct)
next
  case (Transfer event)
  with inv st show ?thesis
    using handle_cases [of event ns] by (auto simp: keyed_delete)
next
  case (Timeout rid promise)
  with inv st show ?thesis
    by (auto simp: keyed_iff runTimer_def timeoutCallback_def Map_delete_distinct Map_delete_set
        split: if_splits)
  qed simp_all
qed

lemma keyed_run: "keyed ns \<Longrightarrow> run cfg as ns = Some ns' \<Longrightarrow> keyed ns'"
  by (induction as arbitrary: ns) (auto split: option.splits dest: keyed_step)

lemma keyed_new: "keyed NostrService_new"
  by (simp add: keyed_def NostrService_new_def)


lemma timed_iff:
  "timed ns \<longleftrightarrow>
     distinct (map fst (timers ns)) \<and> distinct (map snd (timers ns)) \<and>
     (\<forall>t \<in> set (timers ns). snd t < promises ns) \<and>
     (\<forall>e \<in> set (pendingPayments ns). (fst e, resolve (snd e)) \<in> set (timers ns)) \<and>
     distinct (map fst (resolutions ns)) \<and>
     (\<forall>r \<in> set (resolutions ns). fst r < promises ns) \<and>
     (\<forall>t \<in> set (timers ns).
        (snd t \<in> fst ` set (resolutions ns)) = (fst t \<notin> fst ` set (pendingPayments ns))) \<and>
     (\<forall>promise < promises ns.
        promise \<in> snd ` set (timers ns) \<or> promise \<in> fst ` set (resolutions ns))"
proof -
  have "(\<forall>p \<in> {0..<n}. Q p) \<longleftrightarrow> (\<forall>p<n. Q p)" for n :: nat and Q
    by auto
  then show ?thesis
    by (simp add: timed_def list_all_iff Map_has_def)
qed

lemma timed_new: "timed NostrService_new"
  by (simp add: timed_iff NostrService_new_def)

lemma timedD:
  assumes "timed ns"
  shows "distinct (map fst (timers ns))"
    and "distinct (map snd (timers ns))"
    and "\<And>t. t \<in> set (timers ns) \<Longrightarrow> snd t < promises ns"
    and "\<And>e. e \<in> set (pendingPayments ns) \<Longrightarrow> (fst e, resolve (snd e)) \<in> set (timers ns)"
    and "distinct (map fst (resolutions ns))"
    and "\<And>r. r \<in> set (resolutions ns) \<Longrightarrow> fst r < promises ns"
    and "\<And>t. t \<in> set (timers ns) \<Longrightarrow>
           (snd t \<in> fst ` set (resolutions ns)) = (fst t \<notin> fst ` set (pendingPayments ns))"
    and "\<And>promise. promise < promises ns \<Longrightarrow>
           promise \<in> snd ` set (timers ns) \<or> promise \<in> fst ` set (resolutions ns)"
  using assms unfolding timed_iff by blast+

lemma timed_wait:
  assumes inv: "timed ns" and fresh: "k \<notin> fst ` set (timers ns)"
  shows "timed (snd (waitForPayment cfg k uid pk now ns))"
proof -
  let ?p = "promises ns"
  let ?e = "\<lparr> requestId = k, unicityId = uid, userPubkey = pk, amount = Config.amount cfg,
      coinId = Config.coinId cfg, createdAt = now, resolve = ?p \<rparr>"
  note i = timedD [OF inv]
  have absent: "k \<notin> fst ` set (pendingPayments ns)"
  proof
    assume "k \<in> fst ` set (pendingPayments ns)"
    then obtain e where "e \<in> set (pendingPayments ns)" "fst e = k" by auto
    with i(4) [of e] have "(k, resolve (snd e)) \<in> set (timers ns)" by simp
    then have "k \<in> fst ` set (timers ns)" by force
    with fresh show False by simp
  qed
  have new1: "?p \<notin> snd ` set (timers ns)"
    using i(3) by fastforce
  have new2: "?p \<notin> fst ` set (resolutions ns)"
    using i(6) by fastforce
  have eq: "snd (waitForPayment cfg k uid pk now ns) =
      ns\<lparr> promises := Suc ?p, pendingPayments := pendingPayments ns @ [(k, ?e)],
          timers := timers ns @ [(k, ?p)] \<rparr>"
    using absent by (simp add: waitForPayment_def Let_def Map_set_absent)
  have 1: "distinct (map fst (timers ns @ [(k, ?p)]))"
    using i(1) fresh by simp
  have 2: "distinct (map snd (timers ns @ [(k, ?p)]))"
    using i(2) new1 by simp
  have 3: "\<forall>t \<in> set (timers ns @ [(k, ?p)]). snd t < Suc ?p"
    using i(3) by (auto simp: less_Suc_eq)
  have 4: "\<forall>e \<in> set (pendingPayments ns @ [(k, ?e)]).
      (fst e, resolve (snd e)) \<in> set (timers ns @ [(k, ?p)])"
    using i(4) by auto
  have 6: "\<forall>r \<in> set (resolutions ns). fst r < Suc ?p"
    using i(6) by (auto simp: less_Suc_eq)
  have 7: "\<forall>t \<in> set (timers ns @ [(k, ?p)]).
      (snd t \<in> fst ` set (resolutions ns)) = (fst t \<notin> fst ` set (pendingPayments ns @ [(k, ?e)]))"
  proof
    fix t assume "t \<in> set (timers ns @ [(k, ?p)])"
    then consider "t \<in> set (timers ns)" | "t = (k, ?p)" by auto
    then show "(snd t \<in> fst ` set (resolutions ns)) = (fst t \<notin> fst ` set (pendingPayments ns @ [(k, ?e)]))"
    proof cases
      case 1
      then have "fst t \<noteq> k" using fresh by auto
      with i(7) [OF 1] show ?thesis by auto
    next
      case 2
      then show ?thesis using new2 by simp
    qed
  qed
  have 8: "\<forall>promise < Suc ?p. promise \<in> snd ` set (timers ns @ [(k, ?p)])
      \<or> promise \<in> fst ` set (resolutions ns)"
    using i(8) by (auto simp: less_Suc_eq)
  show ?thesis
    unfolding eq timed_iff using 1 2 3 4 i(5) 6 7 8 by simp
qed


lemma Map_delete_keys: "fst ` set (Map_delete k m) = fst ` set m - {k}"
  by (auto simp: Map_delete_set)

lemma distinct_fst_eq:
  "distinct (map fst xs) \<Longrightarrow> x \<in> set xs \<Longrightarrow> y \<in> set xs \<Longrightarrow> fst x = fst y \<Longrightarrow> x = y"
  by (metis eq_key_imp_eq_value prod.collapse)

lemma distinct_snd_eq:
  "distinct (map snd xs) \<Longrightarrow> x \<in> set xs \<Longrightarrow> y \<in> set xs \<Longrightarrow> snd x = snd y \<Longrightarrow> x = y"
  by (metis distinct_map inj_onD)

lemma timed_resolve:
  assumes inv: "timed ns" and e: "e \<in> set (pendingPayments ns)"
  shows "timed (ns\<lparr> resolutions := resolutions ns @ [(resolve (snd e), b)],
                     pendingPayments := Map_delete (fst e) (pendingPayments ns) \<rparr>)"
proof -
  let ?t = "(fst e, resolve (snd e))"
  note i = timedD [OF inv]
  have timer: "?t \<in> set (timers ns)"
    using i(4) [OF e] .
  have key: "fst e \<in> fst ` set (pendingPayments ns)"
    using e by auto
  have unresolved: "resolve (snd e) \<notin> fst ` set (resolutions ns)"
    using i(7) [OF timer] key by simp
  have 4: "\<forall>x \<in> set (Map_delete (fst e) (pendingPayments ns)).
      (fst x, resolve (snd x)) \<in> set (timers ns)"
    using i(4) by (simp add: Map_delete_set)
  have 5: "distinct (map fst (resolutions ns @ [(resolve (snd e), b)]))"
    using i(5) unresolved by simp
  have 6: "\<forall>r \<in> set (resolutions ns @ [(resolve (snd e), b)]). fst r < promises ns"
    using i(6) i(3) [OF timer] by auto
  have 7: "\<forall>t \<in> set (timers ns).
      (snd t \<in> fst ` set (resolutions ns @ [(resolve (snd e), b)])) =
      (fst t \<notin> fst ` set (Map_delete (fst e) (pendingPayments ns)))"
  proof
    fix t assume t: "t \<in> set (timers ns)"
    show "(snd t \<in> fst ` set (resolutions ns @ [(resolve (snd e), b)])) =
      (fst t \<notin> fst ` set (Map_delete (fst e) (pendingPayments ns)))"
    proof (cases "t = ?t")
      case True
      then show ?thesis by (simp add: Map_delete_keys)
    next
      case False
      have "fst t \<noteq> fst e"
        using distinct_fst_eq [OF i(1) t timer] False by auto
      moreover have "snd t \<noteq> resolve (snd e)"
        using distinct_snd_eq [OF i(2) t timer] False by auto
      ultimately show ?thesis
        using i(7) [OF t] by (auto simp: Map_delete_keys)
    qed
  qed
  have 8: "\<forall>promise < promises ns. promise \<in> snd ` set (timers ns)
      \<or> promise \<in> fst ` set (resolutions ns @ [(resolve (snd e), b)])"
    using i(8) by auto
  show ?thesis
    unfolding timed_iff using i(1) i(2) i(3) 4 5 6 7 8 by simp
qed

lemma timed_resolve_pair:
  "timed ns \<Longrightarrow> (k, p) \<in> set (pendingPayments ns) \<Longrightarrow>
   timed (ns\<lparr> resolutions := resolutions ns @ [(resolve p, b)],
              pendingPayments := Map_delete k (pendingPayments ns) \<rparr>)"
  using timed_resolve [of ns "(k, p)" b] by simp

lemma timed_remove_timer:
  assumes inv: "timed ns" and t: "t \<in> set (timers ns)"
    and gone: "fst t \<notin> fst ` set (pendingPayments ns)"
  shows "timed (ns\<lparr> timers := remove1 t (timers ns) \<rparr>)"
proof -
  note i = timedD [OF inv]
  have d: "distinct (timers ns)"
    using i(1) by (rule distinct_map [THEN iffD1, THEN conjunct1])
  have set': "set (remove1 t (timers ns)) = set (timers ns) - {t}"
    using d by simp
  have 1: "distinct (map fst (remove1 t (timers ns)))"
    using i(1) by (simp add: distinct_map distinct_remove1 set' inj_on_diff)
  have 2: "distinct (map snd (remove1 t (timers ns)))"
    using i(2) by (simp add: distinct_map distinct_remove1 set' inj_on_diff)
  have 3: "\<forall>x \<in> set (remove1 t (timers ns)). snd x < promises ns"
    using i(3) by (simp add: set')
  have 4: "\<forall>e \<in> set (pendingPayments ns). (fst e, resolve (snd e)) \<in> set (remove1 t (timers ns))"
  proof
    fix e assume e: "e \<in> set (pendingPayments ns)"
    then have "fst e \<noteq> fst t" using gone by force
    then have "(fst e, resolve (snd e)) \<noteq> t" by auto
    with i(4) [OF e] show "(fst e, resolve (snd e)) \<in> set (remove1 t (timers ns))"
      by (simp add: set')
  qed
  have 7: "\<forall>x \<in> set (remove1 t (timers ns)).
      (snd x \<in> fst ` set (resolutions ns)) = (fst x \<notin> fst ` set (pendingPayments ns))"
    using i(7) by (simp add: set')
  have resolved: "snd t \<in> fst ` set (resolutions ns)"
    using i(7) [OF t] gone by simp
  have 8: "\<forall>promise < promises ns. promise \<in> snd ` set (remove1 t (timers ns))
      \<or> promise \<in> fst ` set (resolutions ns)"
  proof (intro allI impI)
    fix promise assume "promise < promises ns"
    from i(8) [OF this] show "promise \<in> snd ` set (remove1 t (timers ns))
      \<or> promise \<in> fst ` set (resolutions ns)"
    proof
      assume "promise \<in> snd ` set (timers ns)"
      then obtain x where x: "x \<in> set (timers ns)" "snd x = promise" by auto
      show ?thesis
      proof (cases "x = t")
        case True
        with resolved x show ?thesis by simp
      next
        case False
        with x have "promise \<in> snd ` set (remove1 t (timers ns))"
          by (force simp: set')
        then show ?thesis ..
      qed
    qed simp
  qed
  show ?thesis
    unfolding timed_iff using 1 2 3 4 i(5) i(6) 7 8 by simp
qed

lemma timed_runTimer:
  assumes inv: "timed ns" and t: "t \<in> set (timers ns)"
  shows "timed (runTimer t ns)"
proof (cases "fst t \<in> fst ` set (pendingPayments ns)")
  case True
  then obtain e where e: "e \<in> set (pendingPayments ns)" "fst e = fst t" by auto
  note i = timedD [OF inv]
  from i(4) [OF e(1)] e(2) have "(fst t, resolve (snd e)) \<in> set (timers ns)" by simp
  then have "(fst t, resolve (snd e)) = t"
    using distinct_fst_eq [OF i(1) _ t] by simp
  then have r: "resolve (snd e) = snd t"
    by (metis snd_conv)
  let ?ns = "ns\<lparr> resolutions := resolutions ns @ [(resolve (snd e), False)],
                 pendingPayments := Map_delete (fst e) (pendingPayments ns) \<rparr>"
  have "timed ?ns" using inv e(1) by (rule timed_resolve)
  moreover have "t \<in> set (timers ?ns)" using t by simp
  moreover have "fst t \<notin> fst ` set (pendingPayments ?ns)"
    by (simp add: Map_delete_keys e(2))
  ultimately have "timed (?ns\<lparr> timers := remove1 t (timers ?ns) \<rparr>)"
    by (rule timed_remove_timer)
  moreover have "runTimer t ns = ?ns\<lparr> timers := remove1 t (timers ?ns) \<rparr>"
    using True by (simp add: runTimer_def timeoutCallback_def Map_has_def r e(2))
  ultimately show ?thesis by simp
next
  case False
  then have "runTimer t ns = ns\<lparr> timers := remove1 t (timers ns) \<rparr>"
    by (simp add: runTimer_def timeoutCallback_def Map_has_def)
  with timed_remove_timer [OF inv t False] show ?thesis by simp
qed

lemma timed_step:
  "timed ns \<Longrightarrow> freshWait a ns \<Longrightarrow> step cfg a ns = Some ns' \<Longrightarrow> timed ns'"
proof (cases "frames a")
  case True
  assume "timed ns" "step cfg a ns = Some ns'"
  with step_frame [OF True, of cfg ns ns'] show ?thesis
    by (simp add: timed_def)
next
  case False
  assume inv: "timed ns" and fr: "freshWait a ns" and st: "step cfg a ns = Some ns'"
  from False inv st show ?thesis
  proof (cases a)
  case (Wait k uid pk now)
  with inv fr st show ?thesis
    by (auto simp: timed_wait)
next
  case (Transfer event)
  with inv st show ?thesis
    using handle_cases [of event ns] by (auto simp: timed_resolve_pair)
next
  case (Timeout k promise)
  with inv st show ?thesis
    by (auto simp: timed_runTimer split: if_splits)
  qed simp_all
qed

lemma timed_run:
  "timed ns \<Longrightarrow> fresh cfg as ns \<Longrightarrow> run cfg as ns = Some ns' \<Longrightarrow> timed ns'"
proof (induction as arbitrary: ns)
  case Nil
  then show ?case by simp
next
  case (Cons a as)
  from Cons.prems(3) obtain ns1 where st: "step cfg a ns = Some ns1"
    and rest: "run cfg as ns1 = Some ns'"
    by (auto split: option.splits)
  from Cons.prems(2) st have fr: "freshWait a ns" and fr1: "fresh cfg as ns1"
    by simp_all
  from Cons.prems(1) fr st have "timed ns1"
    by (rule timed_step)
  from this fr1 rest show ?case
    by (rule Cons.IH)
qed

lemma scheduled_iff:
  "scheduled ns \<longleftrightarrow>
     distinct (map snd (timers ns)) \<and>
     (\<forall>t \<in> set (timers ns). snd t < promises ns) \<and>
     (\<forall>e \<in> set (pendingPayments ns). (fst e, resolve (snd e)) \<in> set (timers ns)) \<and>
     (\<forall>r \<in> set (resolutions ns). fst r < promises ns) \<and>
     (\<forall>e \<in> set (pendingPayments ns). resolve (snd e) \<notin> fst ` set (resolutions ns))"
  by (simp add: scheduled_def list_all_iff)

lemma scheduledD:
  assumes "scheduled ns"
  shows "distinct (map snd (timers ns))"
    and "\<And>t. t \<in> set (timers ns) \<Longrightarrow> snd t < promises ns"
    and "\<And>e. e \<in> set (pendingPayments ns) \<Longrightarrow> (fst e, resolve (snd e)) \<in> set (timers ns)"
    and "\<And>r. r \<in> set (resolutions ns) \<Longrightarrow> fst r < promises ns"
    and "\<And>e. e \<in> set (pendingPayments ns) \<Longrightarrow> resolve (snd e) \<notin> fst ` set (resolutions ns)"
  using assms unfolding scheduled_iff by blast+

lemma scheduled_new: "scheduled NostrService_new"
  by (simp add: scheduled_iff NostrService_new_def)

lemma scheduled_wait:
  assumes inv: "scheduled ns"
  shows "scheduled (snd (waitForPayment cfg k uid pk now ns))"
proof -
  let ?p = "promises ns"
  let ?e = "\<lparr> requestId = k, unicityId = uid, userPubkey = pk, amount = Config.amount cfg,
      coinId = Config.coinId cfg, createdAt = now, resolve = ?p \<rparr>"
  let ?m = "Map_set k ?e (pendingPayments ns)"
  note i = scheduledD [OF inv]
  have new1: "?p \<notin> snd ` set (timers ns)"
    using i(2) by fastforce
  have new2: "?p \<notin> fst ` set (resolutions ns)"
    using i(4) by fastforce
  have sub: "set ?m \<subseteq> insert (k, ?e) (set (pendingPayments ns))"
    by (rule Map_set_subset)
  have eq: "snd (waitForPayment cfg k uid pk now ns) =
      ns\<lparr> promises := Suc ?p, pendingPayments := ?m, timers := timers ns @ [(k, ?p)] \<rparr>"
    by (simp add: waitForPayment_def Let_def)
  have 1: "distinct (map snd (timers ns @ [(k, ?p)]))"
    using i(1) new1 by simp
  have 2: "\<forall>t \<in> set (timers ns @ [(k, ?p)]). snd t < Suc ?p"
    using i(2) by (auto simp: less_Suc_eq)
  have 3: "\<forall>e \<in> set ?m. (fst e, resolve (snd e)) \<in> set (timers ns @ [(k, ?p)])"
  proof
    fix e assume "e \<in> set ?m"
    with sub consider "e = (k, ?e)" | "e \<in> set (pendingPayments ns)" by auto
    then show "(fst e, resolve (snd e)) \<in> set (timers ns @ [(k, ?p)])"
      using i(3) by cases auto
  qed
  have 4: "\<forall>r \<in> set (resolutions ns). fst r < Suc ?p"
    using i(4) by (auto simp: less_Suc_eq)
  have 5: "\<forall>e \<in> set ?m. resolve (snd e) \<notin> fst ` set (resolutions ns)"
  proof
    fix e assume "e \<in> set ?m"
    with sub consider "e = (k, ?e)" | "e \<in> set (pendingPayments ns)" by auto
    then show "resolve (snd e) \<notin> fst ` set (resolutions ns)"
      using i(5) new2 by cases auto
  qed
  show ?thesis
    unfolding eq scheduled_iff using 1 2 3 4 5 by simp
qed

lemma scheduled_resolve:
  assumes inv: "scheduled ns" and e: "e \<in> set (pendingPayments ns)"
  shows "scheduled (ns\<lparr> resolutions := resolutions ns @ [(resolve (snd e), b)],
                        pendingPayments := Map_delete (fst e) (pendingPayments ns) \<rparr>)"
proof -
  note i = scheduledD [OF inv]
  have timer: "(fst e, resolve (snd e)) \<in> set (timers ns)"
    using i(3) [OF e] .
  have 3: "\<forall>x \<in> set (Map_delete (fst e) (pendingPayments ns)).
      (fst x, resolve (snd x)) \<in> set (timers ns)"
    using i(3) by (simp add: Map_delete_set)
  have 4: "\<forall>r \<in> set (resolutions ns @ [(resolve (snd e), b)]). fst r < promises ns"
    using i(4) i(2) [OF timer] by auto
  have 5: "\<forall>x \<in> set (Map_delete (fst e) (pendingPayments ns)).
      resolve (snd x) \<notin> fst ` set (resolutions ns @ [(resolve (snd e), b)])"
  proof
    fix x assume "x \<in> set (Map_delete (fst e) (pendingPayments ns))"
    then have x: "x \<in> set (pendingPayments ns)" and key: "fst x \<noteq> fst e"
      by (simp_all add: Map_delete_set)
    have "resolve (snd x) \<noteq> resolve (snd e)"
    proof
      assume same: "resolve (snd x) = resolve (snd e)"
      from distinct_snd_eq [OF i(1) i(3) [OF x] timer] same key show False by simp
    qed
    with i(5) [OF x] show "resolve (snd x) \<notin> fst ` set (resolutions ns @ [(resolve (snd e), b)])"
      by auto
  qed
  show ?thesis
    unfolding scheduled_iff using i(1) i(2) 3 4 5 by simp
qed

lemma scheduled_resolve_pair:
  "scheduled ns \<Longrightarrow> (k, p) \<in> set (pendingPayments ns) \<Longrightarrow>
   scheduled (ns\<lparr> resolutions := resolutions ns @ [(resolve p, b)],
                  pendingPayments := Map_delete k (pendingPayments ns) \<rparr>)"
  using scheduled_resolve [of ns "(k, p)" b] by simp

lemma scheduled_runTimer:
  assumes inv: "scheduled ns" and t: "t \<in> set (timers ns)"
  shows "scheduled (runTimer t ns)"
proof -
  note i = scheduledD [OF inv]
  let ?ts = "remove1 t (timers ns)"
  have d: "distinct (timers ns)"
    using i(1) by (rule distinct_map [THEN iffD1, THEN conjunct1])
  have set': "set ?ts = set (timers ns) - {t}"
    using d by simp
  have 1: "distinct (map snd ?ts)"
    using i(1) by (simp add: distinct_map distinct_remove1 set' inj_on_diff)
  have 2: "\<forall>x \<in> set ?ts. snd x < promises ns"
    using i(2) by (simp add: set')
  have other: "(fst e, resolve (snd e)) \<in> set ?ts \<and> resolve (snd e) \<noteq> snd t"
    if e: "e \<in> set (pendingPayments ns)" and key: "fst e \<noteq> fst t" for e
  proof
    from key have "(fst e, resolve (snd e)) \<noteq> t" by auto
    with i(3) [OF e] show "(fst e, resolve (snd e)) \<in> set ?ts"
      by (simp add: set')
    show "resolve (snd e) \<noteq> snd t"
    proof
      assume "resolve (snd e) = snd t"
      with distinct_snd_eq [OF i(1) i(3) [OF e] t] key show False
        by (auto simp: prod_eq_iff)
    qed
  qed
  show ?thesis
  proof (cases "Map_has (fst t) (pendingPayments ns)")
    case True
    then have eq: "runTimer t ns =
        ns\<lparr> timers := ?ts, pendingPayments := Map_delete (fst t) (pendingPayments ns),
            resolutions := resolutions ns @ [(snd t, False)] \<rparr>"
      by (simp add: runTimer_def timeoutCallback_def)
    have 3: "\<forall>x \<in> set (Map_delete (fst t) (pendingPayments ns)).
        (fst x, resolve (snd x)) \<in> set ?ts"
      using other by (simp add: Map_delete_set)
    have 4: "\<forall>r \<in> set (resolutions ns @ [(snd t, False)]). fst r < promises ns"
      using i(4) i(2) [OF t] by auto
    have 5: "\<forall>x \<in> set (Map_delete (fst t) (pendingPayments ns)).
        resolve (snd x) \<notin> fst ` set (resolutions ns @ [(snd t, False)])"
      using other i(5) by (auto simp: Map_delete_set)
    show ?thesis
      unfolding eq scheduled_iff using 1 2 3 4 5 by simp
  next
    case False
    then have eq: "runTimer t ns = ns\<lparr> timers := ?ts \<rparr>"
      by (simp add: runTimer_def timeoutCallback_def)
    from False have "\<forall>e \<in> set (pendingPayments ns). fst e \<noteq> fst t"
      by (force simp: Map_has_def)
    with other have 3: "\<forall>e \<in> set (pendingPayments ns). (fst e, resolve (snd e)) \<in> set ?ts"
      by blast
    show ?thesis
      unfolding eq scheduled_iff using 1 2 3 i(4) i(5) by simp
  qed
qed

lemma scheduled_step: "scheduled ns \<Longrightarrow> step cfg a ns = Some ns' \<Longrightarrow> scheduled ns'"
proof (cases "frames a")
  case True
  assume "scheduled ns" "step cfg a ns = Some ns'"
  with step_frame [OF True, of cfg ns ns'] show ?thesis
    by (simp add: scheduled_def)
next
  case False
  assume inv: "scheduled ns" and st: "step cfg a ns = Some ns'"
  from False inv st show ?thesis
  proof (cases a)
    case (Wait k uid pk now)
    with inv st show ?thesis
      by (auto simp: scheduled_wait)
  next
    case (Transfer event)
    with inv st show ?thesis
      using handle_cases [of event ns] by (auto simp: scheduled_resolve_pair)
  next
    case (Timeout k promise)
    with inv st show ?thesis
      by (auto simp: scheduled_runTimer split: if_splits)
  qed simp_all
qed

lemma scheduled_run: "scheduled ns \<Longrightarrow> run cfg as ns = Some ns' \<Longrightarrow> scheduled ns'"
  by (induction as arbitrary: ns) (auto split: option.splits dest: scheduled_step)


lemmas run_defs = two_requests_def one_settled_def all_settled_def ns_two_requests_def
  ns_one_settled_def ns_all_settled_def reused_identifier_def ns_reused_identifier_def
  NostrService_new_def connect_def sendPaymentRequest_def
  waitForPayment_def handleIncomingTransfer_def runTimer_def timeoutCallback_def cfg_example_def
  pending_r1_def pending_r2_def transfer_reply_def matches_def Map_delete_def Map_has_def

lemma run_two_requests: "run cfg_example two_requests NostrService_new = Some ns_two_requests"
  by (simp add: run_defs)

lemma run_one_settled: "run cfg_example one_settled NostrService_new = Some ns_one_settled"
  by (simp add: run_defs)

lemma run_all_settled: "run cfg_example all_settled NostrService_new = Some ns_all_settled"
  by (simp add: run_defs)

lemma run_reused_identifier:
  "run cfg_example reused_identifier NostrService_new = Some ns_reused_identifier"
  by (simp add: run_defs)

lemma fresh_one_settled: "fresh cfg_example one_settled NostrService_new"
  by (simp add: run_defs)

lemma fresh_all_settled: "fresh cfg_example all_settled NostrService_new"
  by (simp add: run_defs)

lemma reused_identifier_not_fresh: "\<not> fresh cfg_example reused_identifier NostrService_new"
  by (simp add: run_defs)

lemma unresolved_pending:
  assumes "scheduled ns" and e: "e \<in> set (pendingPayments ns)"
  shows "outcome (resolve (snd e)) ns = None"
  using scheduledD(5) [OF assms] by (simp add: outcome_def map_of_eq_None_iff)

text \<open>
  Claim C2, as the code has it. In every state that a run of the service reaches, the keys
  of \<^verbatim>\<open>pendingPayments\<close> are distinct, every entry stands under its own \<^verbatim>\<open>requestId\<close>,
  and the promise of every entry is unresolved: a request that was matched or has timed
  out is no longer in the map. The map is keyed by request, not by account.
\<close>

theorem pending_keyed_by_requestId:
  assumes "run cfg as NostrService_new = Some ns"
  shows "distinct (map fst (pendingPayments ns))
    \<and> (\<forall>e \<in> set (pendingPayments ns).
          requestId (snd e) = fst e \<and> outcome (resolve (snd e)) ns = None)"
proof -
  from assms have "keyed ns" and "scheduled ns"
    using keyed_run [OF keyed_new] scheduled_run [OF scheduled_new] by blast+
  then show ?thesis
    by (simp add: keyed_iff unresolved_pending)
qed

text \<open>
  The theorem after two requests and one transfer: the request \<open>r1\<close> is resolved and
  gone, the request \<open>r2\<close> stands under its key, unresolved.
\<close>

theorem pending_keyed_by_requestId_witness:
  "run cfg_example one_settled NostrService_new = Some ns_one_settled
   \<and> pendingPayments ns_one_settled = [(''r2'', pending_r2)]
   \<and> requestId pending_r2 = ''r2''
   \<and> outcome (resolve pending_r2) ns_one_settled = None
   \<and> outcome (resolve pending_r1) ns_one_settled = Some True"
  using pending_keyed_by_requestId [OF run_one_settled]
  by (simp add: run_one_settled) (simp add: ns_one_settled_def pending_r1_def pending_r2_def outcome_def)

text \<open>
  Claim C2 as it is written fails: after two requests for the account \<open>alice\<close> the map
  holds two pending payments of this account.
\<close>

theorem two_pending_per_account_counterexample:
  "run cfg_example two_requests NostrService_new = Some ns_two_requests
   \<and> pendingAccounts ns_two_requests = [''alice'', ''alice'']"
  by (simp add: run_two_requests) (simp add: pendingAccounts_def ns_two_requests_def pending_r1_def pending_r2_def)

lemma filter_fst_le_1: "distinct (map fst xs) \<Longrightarrow> length (filter (\<lambda>r. fst r = p) xs) \<le> 1"
  by (induction xs) (force simp: filter_empty_conv)+

lemma filter_fst_ge_1: "p \<in> fst ` set xs \<Longrightarrow> 1 \<le> length (filter (\<lambda>r. fst r = p) xs)"
  by (induction xs) auto

text \<open>
  Claim C5, as the code has it. The timeout callback of a registration closes over the
  request identifier and tests \<^verbatim>\<open>pendingPayments.has(requestId)\<close>; no timer is ever
  cancelled.
  In every state that a run of the service reaches in which no registration uses a request
  identifier whose timer from an earlier registration is still scheduled:
  \<^item> the resolver of every promise has been called at most once, and exactly once when
    the timer of the promise has run;
  \<^item> a scheduled timer whose promise is resolved already (its request was matched) does
    nothing when it runs, but leave the queue: no \<open>False\<close> follows the \<open>True\<close>;
  \<^item> a scheduled timer whose promise is unresolved calls the resolver with \<open>False\<close> when
    it runs, and removes the entry.

  In every state, whatever the identifiers, a timeout callback that finds no entry under
  its request identifier does nothing.
\<close>

theorem promise_resolved_once:
  assumes "run cfg as NostrService_new = Some ns"
    and "fresh cfg as NostrService_new"
  shows "(\<forall>promise < promises ns.
            resolveCalls promise ns \<le> 1
            \<and> (promise \<notin> snd ` set (timers ns) \<longrightarrow> resolveCalls promise ns = 1))
    \<and> (\<forall>t \<in> set (timers ns).
          (outcome (snd t) ns \<noteq> None \<longrightarrow>
             runTimer t ns = ns\<lparr> timers := remove1 t (timers ns) \<rparr>)
          \<and> (outcome (snd t) ns = None \<longrightarrow>
             resolutions (runTimer t ns) = resolutions ns @ [(snd t, False)]
             \<and> \<not> Map_has (fst t) (pendingPayments (runTimer t ns))))
    \<and> (\<forall>rid promise. \<not> Map_has rid (pendingPayments ns) \<longrightarrow>
          timeoutCallback rid promise ns = ns)"
proof -
  from assms have inv: "timed ns"
    using timed_run [OF timed_new] by blast
  note i = timedD [OF inv]
  have once: "resolveCalls promise ns \<le> 1" for promise
    unfolding resolveCalls_def using i(5) by (rule filter_fst_le_1)
  have run: "resolveCalls promise ns = 1"
    if "promise < promises ns" "promise \<notin> snd ` set (timers ns)" for promise
  proof -
    from i(8) [OF that(1)] that(2) have "promise \<in> fst ` set (resolutions ns)" by simp
    then have "1 \<le> resolveCalls promise ns"
      unfolding resolveCalls_def by (rule filter_fst_ge_1)
    with once [of promise] show ?thesis by simp
  qed
  have noop: "runTimer t ns = ns\<lparr> timers := remove1 t (timers ns) \<rparr>"
    if t: "t \<in> set (timers ns)" and "outcome (snd t) ns \<noteq> None" for t
  proof -
    from that(2) have "snd t \<in> fst ` set (resolutions ns)"
      by (simp add: outcome_def map_of_eq_None_iff)
    with i(7) [OF t] have "\<not> Map_has (fst t) (pendingPayments ns)"
      by (simp add: Map_has_def)
    then show ?thesis
      by (simp add: runTimer_def timeoutCallback_def)
  qed
  have fires: "resolutions (runTimer t ns) = resolutions ns @ [(snd t, False)]
      \<and> \<not> Map_has (fst t) (pendingPayments (runTimer t ns))"
    if t: "t \<in> set (timers ns)" and "outcome (snd t) ns = None" for t
  proof -
    from that(2) have "snd t \<notin> fst ` set (resolutions ns)"
      by (simp add: outcome_def map_of_eq_None_iff)
    with i(7) [OF t] have "Map_has (fst t) (pendingPayments ns)"
      by (simp add: Map_has_def)
    then show ?thesis
      by (simp add: runTimer_def timeoutCallback_def Map_has_delete)
  qed
  have absent: "timeoutCallback rid promise ns = ns"
    if "\<not> Map_has rid (pendingPayments ns)" for rid promise
    using that by (simp add: timeoutCallback_def)
  show ?thesis
    using once run noop fires absent by blast
qed

text \<open>
  The theorem after two requests and one transfer, where the timer of the matched request
  does nothing and the other one resolves with \<open>False\<close>, and after both timers have run,
  where each resolver has been called once.
\<close>

theorem promise_resolved_once_witness:
  "run cfg_example one_settled NostrService_new = Some ns_one_settled
   \<and> resolveCalls 0 ns_one_settled = 1 \<and> resolveCalls 1 ns_one_settled = 0
   \<and> outcome 0 ns_one_settled = Some True
   \<and> runTimer (''r1'', 0) ns_one_settled = ns_one_settled\<lparr> timers := [(''r2'', 1)] \<rparr>
   \<and> outcome 1 ns_one_settled = None
   \<and> resolutions (runTimer (''r2'', 1) ns_one_settled) = [(0, True), (1, False)]
   \<and> run cfg_example all_settled NostrService_new = Some ns_all_settled
   \<and> resolveCalls 0 ns_all_settled = 1 \<and> resolveCalls 1 ns_all_settled = 1"
  using promise_resolved_once [OF run_one_settled fresh_one_settled]
    promise_resolved_once [OF run_all_settled fresh_all_settled]
  by (simp add: run_one_settled run_all_settled fresh_one_settled fresh_all_settled)
     (simp add: ns_one_settled_def ns_all_settled_def ns_two_requests_def resolveCalls_def
        outcome_def runTimer_def timeoutCallback_def Map_has_def Map_delete_def)

text \<open>
  Claim C5 as it is written fails. The identifier of a request is eight characters of
  \<open>Math.random().toString(36)\<close>, and nothing keeps a registration from using the identifier
  of a request whose timer is still scheduled. Request \<open>r1\<close> is registered and matched by
  a transfer; a second request that draws \<open>r1\<close> again is registered; then both timers run.
  The timer of the first registration finds the entry of the second one under \<open>r1\<close>,
  removes it and calls its own resolver: the first future, resolved with \<open>True\<close>, gets a
  late \<open>False\<close>, and the second future is never resolved, although its timer has run.
\<close>

theorem promise_resolved_twice_counterexample:
  "run cfg_example reused_identifier NostrService_new = Some ns_reused_identifier
   \<and> \<not> fresh cfg_example reused_identifier NostrService_new
   \<and> resolutions ns_reused_identifier = [(0, True), (0, False)]
   \<and> resolveCalls 0 ns_reused_identifier = 2
   \<and> promises ns_reused_identifier = 2
   \<and> timers ns_reused_identifier = []
   \<and> resolveCalls 1 ns_reused_identifier = 0
   \<and> outcome 1 ns_reused_identifier = None"
  by (simp add: run_reused_identifier reused_identifier_not_fresh)
     (simp add: ns_reused_identifier_def resolveCalls_def outcome_def)

section \<open>The payment path of the tool\<close>

lemma clean_alice: "cleanUnicityId ''@alice'' = ''alice''" "cleanUnicityId ''alice'' = ''alice''"
  by (simp_all add: cleanUnicityId_def trim_def isWhiteSpace_def)

lemma one_waiting:
  "confirm_payment call_r1 ''@alice'' srv_example =
     (Awaits 0,
      srv_example\<lparr> nostrService := (nostrService srv_example)
          \<lparr> queries := [''alice''], pendingPayments := [(''r1'', pending_r1)],
            outbox := [SendPaymentRequest ''pkA'' 10 ''c1'' ''gaming-mcp''
                        ''Gaming day pass for @alice'' ''r1''],
            timers := [(''r1'', 0)], promises := 1 \<rparr>,
        pubkeyCache := [''alice'' \<mapsto> \<lparr> pubkey = ''pkA'', timestamp = 950 \<rparr>] \<rparr>)"
  apply (simp add: confirm_payment_def clean_alice)
  apply (simp add: resolvePubkey_def trim_def isWhiteSpace_def srv_example_def call_r1_def cacheHit_def
      NostrService_resolvePubkey_def NostrService_new_def dir_example_def truthy_def orElse_def
      hasValidPass_def PaymentTracker_new_def sendPaymentRequest_def waitForPayment_def
      cfg_example_def pending_r1_def Let_def)
  done












section \<open>The cache of resolved keys\<close>

lemma clean_twice: "trim (replace ''@'' [] (replace ''@unicity'' [] uid)) = cleanUnicityId uid"
  by (simp add: cleanUnicityId_def)

text \<open>
  Claim C7. When \<^const>\<open>resolvePubkey\<close> returns \<^verbatim>\<open>null\<close>, it has asked the relay, the cache
  is as it was before, and the next call for the same handle, at a clock reading that is
  not earlier, asks the relay again, whatever the relay answers then. A call that returns
  has not asked the relay exactly if the cache holds an entry for the handle whose age is
  below \<^const>\<open>PUBKEY_CACHE_TTL_MS\<close>; it then returns the key of this entry and changes
  nothing.
\<close>

theorem resolvePubkey_not_found_not_cached:
  "(resolvePubkey dir now now' uid srv = (Inr None, srv') \<and> now \<le> later \<longrightarrow>
      pubkeyCache srv' = pubkeyCache srv
      \<and> queries (nostrService srv') =
          queries (nostrService srv) @ [cleanUnicityId (cleanUnicityId uid)]
      \<and> queries (nostrService (snd (resolvePubkey dir_later later later' uid srv'))) =
          queries (nostrService srv') @ [cleanUnicityId (cleanUnicityId uid)])
   \<and> (resolvePubkey dir now now' uid srv = (Inr found, srv'') \<longrightarrow>
      (queries (nostrService srv'') = queries (nostrService srv)) =
      (\<exists>entry. pubkeyCache srv (cleanUnicityId uid) = Some entry
         \<and> now - timestamp entry < PUBKEY_CACHE_TTL_MS
         \<and> found = Some (pubkey entry) \<and> srv'' = srv))"
proof (intro conjI impI)
  assume a: "resolvePubkey dir now now' uid srv = (Inr None, srv') \<and> now \<le> later"
  then have miss: "\<not> cacheHit now (pubkeyCache srv (cleanUnicityId uid))"
    by (auto simp: resolvePubkey_def clean_twice Let_def cacheHit_def split: option.splits)
  from a miss have conn: "client (nostrService srv)"
    by (auto simp: resolvePubkey_def clean_twice NostrService_resolvePubkey_def Let_def
        split: if_splits)
  from a miss conn have srv': "srv' = srv\<lparr> nostrService := (nostrService srv)
      \<lparr> queries := queries (nostrService srv) @ [cleanUnicityId (cleanUnicityId uid)] \<rparr> \<rparr>"
    by (auto simp: resolvePubkey_def clean_twice NostrService_resolvePubkey_def Let_def
        split: if_splits sum.splits option.splits)
  show "pubkeyCache srv' = pubkeyCache srv"
    by (simp add: srv')
  show "queries (nostrService srv') =
      queries (nostrService srv) @ [cleanUnicityId (cleanUnicityId uid)]"
    by (simp add: srv')
  from miss a have miss_later: "\<not> cacheHit later (pubkeyCache srv' (cleanUnicityId uid))"
    by (auto simp: srv' cacheHit_def split: option.splits)
  from miss_later conn show "queries (nostrService (snd (resolvePubkey dir_later later later' uid srv'))) =
      queries (nostrService srv') @ [cleanUnicityId (cleanUnicityId uid)]"
    by (auto simp: srv' resolvePubkey_def clean_twice NostrService_resolvePubkey_def Let_def
        split: sum.splits option.splits)
next
  assume a: "resolvePubkey dir now now' uid srv = (Inr found, srv'')"
  show "(queries (nostrService srv'') = queries (nostrService srv)) =
      (\<exists>entry. pubkeyCache srv (cleanUnicityId uid) = Some entry
         \<and> now - timestamp entry < PUBKEY_CACHE_TTL_MS
         \<and> found = Some (pubkey entry) \<and> srv'' = srv)"
  proof (cases "cacheHit now (pubkeyCache srv (cleanUnicityId uid))")
    case True
    with a show ?thesis
      by (auto simp: resolvePubkey_def clean_twice Let_def cacheHit_def split: option.splits)
  next
    case False
    with a have "queries (nostrService srv'') \<noteq> queries (nostrService srv)"
      by (auto simp: resolvePubkey_def clean_twice NostrService_resolvePubkey_def Let_def
          split: if_splits sum.splits option.splits)
    with False show ?thesis
      by (auto simp: cacheHit_def)
  qed
qed


lemma clean_bob: "cleanUnicityId ''bob'' = ''bob''"
  by (simp add: cleanUnicityId_def trim_def isWhiteSpace_def)

lemma bob_asked:
  "resolvePubkey dir_example 100 110 ''bob'' srv_example = (Inr None, srv_bob_asked)"
  by (simp add: resolvePubkey_def trim_def isWhiteSpace_def srv_example_def srv_bob_asked_def
      cacheHit_def NostrService_resolvePubkey_def NostrService_new_def dir_example_def Let_def)

lemma alice_cached:
  "resolvePubkey dir_example 1900 1950 ''alice'' srv_one_waiting
     = (Inr (Some ''pkA''), srv_one_waiting)"
  by (simp add: srv_one_waiting_def one_waiting)
     (simp add: resolvePubkey_def trim_def isWhiteSpace_def cacheHit_def PUBKEY_CACHE_TTL_MS_def
        Let_def)

lemma bob_asked_fields:
  "queries (nostrService srv_bob_asked) = [''bob'']"
  "pubkeyCache srv_bob_asked = pubkeyCache srv_example"
  by (simp_all add: srv_bob_asked_def)

lemma cache_one_waiting:
  "pubkeyCache srv_one_waiting = [''alice'' \<mapsto> \<lparr> pubkey = ''pkA'', timestamp = 950 \<rparr>]"
  by (simp add: srv_one_waiting_def one_waiting)

text \<open>
  The theorem on the unknown handle \<open>bob\<close>, which is looked up at both calls, and on the
  handle \<open>alice\<close>, which is served from the cache 950 milliseconds after it was stored.
\<close>

theorem resolvePubkey_not_found_not_cached_witness:
  "resolvePubkey dir_example 100 110 ''bob'' srv_example = (Inr None, srv_bob_asked)
   \<and> pubkeyCache srv_bob_asked = pubkeyCache srv_example
   \<and> queries (nostrService srv_bob_asked) = [''bob'']
   \<and> queries (nostrService (snd (resolvePubkey dir_example 200 210 ''bob'' srv_bob_asked)))
       = [''bob'', ''bob'']
   \<and> resolvePubkey dir_example 1900 1950 ''alice'' srv_one_waiting
       = (Inr (Some ''pkA''), srv_one_waiting)
   \<and> map_option timestamp (pubkeyCache srv_one_waiting ''alice'') = Some 950"
  using resolvePubkey_not_found_not_cached [where dir = dir_example and now = 100 and now' = 110
      and uid = "''bob''" and srv = srv_example and srv' = srv_bob_asked and later = 200
      and dir_later = dir_example and later' = 210 and found = None and srv'' = srv_bob_asked]
    resolvePubkey_not_found_not_cached [where dir = dir_example and now = 1900 and now' = 1950
      and uid = "''alice''" and srv = srv_one_waiting and srv' = srv_one_waiting and later = 1900
      and dir_later = dir_example and later' = 1950 and found = "Some ''pkA''"
      and srv'' = srv_one_waiting]
  by (simp add: bob_asked alice_cached clean_bob bob_asked_fields cache_one_waiting)

section \<open>Normalisation of handles\<close>

text \<open>
  Claim C10. \<^const>\<open>cleanUnicityId\<close> is not idempotent. On the handle \<open>@@alice\<close>, which
  carries two sigils, one application gives \<open>@alice\<close>, which still contains the sigil,
  and a second application gives \<open>alice\<close>, a different string. Hence the two spellings
  \<open>@@alice\<close> and \<open>@alice\<close> of one handle are normalised to different map keys.
\<close>

theorem cleanUnicityId_not_idempotent:
  "cleanUnicityId ''@@alice'' = ''@alice''
   \<and> CHR ''@'' \<in> set (cleanUnicityId ''@@alice'')
   \<and> cleanUnicityId (cleanUnicityId ''@@alice'') = ''alice''
   \<and> cleanUnicityId (cleanUnicityId ''@@alice'') \<noteq> cleanUnicityId ''@@alice''
   \<and> cleanUnicityId ''@@alice'' \<noteq> cleanUnicityId ''@alice''"
  by (simp add: cleanUnicityId_def trim_def isWhiteSpace_def)

end
